theory Spec2Isabelle
  imports Complex_Main
begin

section \<open>Python values, errors and indexing\<close>

text \<open>
  The exceptions that the modelled part of \<^verbatim>\<open>steve/sections.py\<close> can raise. An
  operation returns \<open>Inl e\<close> where the Python raises \<open>e\<close>, and \<open>Inr\<close> of its result
  where it returns.
\<close>

datatype error = AttributeError | IndexError | ValueError | ZeroDivisionError

text \<open>
  A grabbed \<^verbatim>\<open>QPixmap\<close> is modelled by what \<^verbatim>\<open>pixmap.toImage().bits()\<close> hands out: the sample
  bytes of the image, or \<open>None\<close> when Qt hands out no pointer (the case that
  \<^verbatim>\<open>renderSectionNumpy\<close> catches). The dynamically typed variables of
  \<^verbatim>\<open>updateBackgroundPixmap\<close> range over \<^verbatim>\<open>None\<close>, \<^verbatim>\<open>False\<close>, a float array and a pixmap.
\<close>

type_synonym qpixmap = "nat list option"

datatype pyval = PyNone | PyFalse | NdArray "real list" | QPixmap qpixmap

text \<open>\<^verbatim>\<open>xs[i]\<close>: negative indices count from the end, anything else out of range raises.\<close>

definition py_index :: "'a list \<Rightarrow> int \<Rightarrow> error + 'a" where
  "py_index xs i =
     (if 0 \<le> i \<and> i < int (length xs) then Inr (xs ! nat i)
      else if i < 0 \<and> - int (length xs) \<le> i then Inr (xs ! nat (int (length xs) + i))
      else Inl IndexError)"

text \<open>\<^verbatim>\<open>del xs[i]\<close>, with the same index rule.\<close>

definition del_at :: "nat \<Rightarrow> 'a list \<Rightarrow> 'a list" where
  "del_at k xs = take k xs @ drop (Suc k) xs"

definition py_del :: "'a list \<Rightarrow> int \<Rightarrow> error + 'a list" where
  "py_del xs i =
     (if 0 \<le> i \<and> i < int (length xs) then Inr (del_at (nat i) xs)
      else if i < 0 \<and> - int (length xs) \<le> i then Inr (del_at (nat (int (length xs) + i)) xs)
      else Inl IndexError)"

section \<open>Points and spin boxes\<close>

text \<open>
  Modelled from the spec: \<^verbatim>\<open>coord.Point\<close>, whose module is not among the sources. The
  spec describes a physical position with a micrometer and a pixel representation;
  \<^verbatim>\<open>sections.py\<close> builds it with \<^verbatim>\<open>coord.Point(x, y, "um")\<close> and reads \<^verbatim>\<open>x_um\<close>, \<^verbatim>\<open>y_um\<close> and
  \<^verbatim>\<open>getUm()\<close>. Only the micrometer pair is kept here.
\<close>

record point =
  x_um :: real
  y_um :: real

definition Point_um :: "real \<Rightarrow> real \<Rightarrow> point" where
  "Point_um x y = \<lparr>x_um = x, y_um = y\<rparr>"

definition getUm :: "point \<Rightarrow> real list" where
  "getUm p = [x_um p, y_um p]"

text \<open>
  \<^verbatim>\<open>SectionSpinBox\<close> is a \<^verbatim>\<open>QDoubleSpinBox\<close>: a minimum, a maximum and a value that
  \<^verbatim>\<open>setValue\<close> bounds to the range. Values are reals here; the rounding of the widget to
  its display precision is not modelled.
\<close>

record spin_box =
  minimum :: real
  maximum :: real
  sb_value :: real

definition qBound :: "real \<Rightarrow> real \<Rightarrow> real \<Rightarrow> real" where
  "qBound lo v hi = max lo (min hi v)"

definition setValue :: "real \<Rightarrow> spin_box \<Rightarrow> spin_box" where
  "setValue v sb = sb\<lparr>sb_value := qBound (minimum sb) v (maximum sb)\<rparr>"

definition SectionSpinBox :: "real \<Rightarrow> real \<Rightarrow> real \<Rightarrow> spin_box" where
  "SectionSpinBox min_value max_value cur_value =
     setValue cur_value \<lparr>minimum = min_value, maximum = max_value, sb_value = 0\<rparr>"

section \<open>SectionControls\<close>

text \<open>
  The controls of a section: the step of the angle, the selection flag, the check box and
  the three spin boxes. The attributes \<^verbatim>\<open>angle\<close>, \<^verbatim>\<open>position_step\<close>, \<^verbatim>\<open>x_pos\<close> and \<^verbatim>\<open>y_pos\<close>,
  which no method reads, are left out.
\<close>

record section_controls =
  angle_step :: real
  selected :: bool
  check_box :: bool
  x_spin_box :: spin_box
  y_spin_box :: spin_box
  angle_spin_box :: spin_box

definition SectionControls :: "real \<Rightarrow> real \<Rightarrow> real \<Rightarrow> section_controls" where
  "SectionControls x_pos y_pos angle =
     \<lparr>angle_step = 1, selected = False, check_box = False,
      x_spin_box = SectionSpinBox (- 1000000) 1000000 x_pos,
      y_spin_box = SectionSpinBox (- 1000000) 1000000 y_pos,
      angle_spin_box = SectionSpinBox (- 180) 180 angle\<rparr>"

definition currentAngle :: "section_controls \<Rightarrow> real" where
  "currentAngle c = sb_value (angle_spin_box c)"

definition currentLocation :: "section_controls \<Rightarrow> point" where
  "currentLocation c = Point_um (sb_value (x_spin_box c)) (sb_value (y_spin_box c))"

definition SectionControls_deselect :: "section_controls \<Rightarrow> section_controls" where
  "SectionControls_deselect c = c\<lparr>selected := False\<rparr>"

definition SectionControls_select :: "section_controls \<Rightarrow> section_controls" where
  "SectionControls_select c = c\<lparr>selected := True\<rparr>"

definition SectionControls_incrementAngle :: "real \<Rightarrow> section_controls \<Rightarrow> section_controls" where
  "SectionControls_incrementAngle direction c =
     (let cur_angle = sb_value (angle_spin_box c) in
      if direction > 0 then
        (let cur_angle = cur_angle + angle_step c in
         if cur_angle > maximum (angle_spin_box c) then
           (let diff = cur_angle - maximum (angle_spin_box c) in
            c\<lparr>angle_spin_box := setValue (minimum (angle_spin_box c) + diff) (angle_spin_box c)\<rparr>)
         else c\<lparr>angle_spin_box := setValue cur_angle (angle_spin_box c)\<rparr>)
      else
        (let cur_angle = cur_angle - angle_step c in
         if cur_angle < minimum (angle_spin_box c) then
           (let diff = minimum (angle_spin_box c) - cur_angle in
            c\<lparr>angle_spin_box := setValue (maximum (angle_spin_box c) - diff) (angle_spin_box c)\<rparr>)
         else c\<lparr>angle_spin_box := setValue cur_angle (angle_spin_box c)\<rparr>))"

definition SectionControls_incrementX :: "real \<Rightarrow> section_controls \<Rightarrow> section_controls" where
  "SectionControls_incrementX direction c =
     c\<lparr>x_spin_box := setValue (sb_value (x_spin_box c) + direction) (x_spin_box c)\<rparr>"

definition SectionControls_incrementY :: "real \<Rightarrow> section_controls \<Rightarrow> section_controls" where
  "SectionControls_incrementY direction c =
     c\<lparr>y_spin_box := setValue (sb_value (y_spin_box c) + direction) (y_spin_box c)\<rparr>"

definition SectionControls_isChecked :: "section_controls \<Rightarrow> bool" where
  "SectionControls_isChecked c = (if check_box c then True else False)"

section \<open>Text: \<^verbatim>\<open>str\<close>, \<^verbatim>\<open>join\<close>, \<^verbatim>\<open>split\<close>, \<^verbatim>\<open>strip\<close>\<close>

definition digit_char :: "nat \<Rightarrow> char" where
  "digit_char d = char_of (48 + d)"

fun str_nat :: "nat \<Rightarrow> string" where
  "str_nat n = (if n < 10 then [digit_char n] else str_nat (n div 10) @ [digit_char (n mod 10)])"

declare str_nat.simps [simp del]

text \<open>\<^verbatim>\<open>str\<close> of a Python integer.\<close>

definition str_int :: "int \<Rightarrow> string" where
  "str_int i = (if i < 0 then CHR ''-'' # str_nat (nat (- i)) else str_nat (nat i))"

text \<open>\<^verbatim>\<open>sep.join(xs)\<close>.\<close>

fun join :: "string \<Rightarrow> string list \<Rightarrow> string" where
  "join sep [] = []"
| "join sep [x] = x"
| "join sep (x # y # ys) = x @ sep @ join sep (y # ys)"

text \<open>\<^verbatim>\<open>s.split(c)\<close> for a one-character separator.\<close>

fun py_split :: "char \<Rightarrow> string \<Rightarrow> string list" where
  "py_split c [] = [[]]"
| "py_split c (x # xs) =
     (if x = c then [] # py_split c xs
      else (case py_split c xs of [] \<Rightarrow> [[x]] | w # ws \<Rightarrow> (x # w) # ws))"

definition CRLF :: string where
  "CRLF = [char_of (13::nat), char_of (10::nat)]"

text \<open>Python's whitespace: space, tab, line feed, vertical tab, form feed, carriage return.\<close>

definition isspace :: "char \<Rightarrow> bool" where
  "isspace c = (of_char c \<in> {32, 9, 10, 11, 12, 13 :: nat})"

definition strip :: "string \<Rightarrow> string" where
  "strip s = rev (dropWhile isspace (rev (dropWhile isspace s)))"

text \<open>
  \<^verbatim>\<open>str\<close> and \<^verbatim>\<open>float\<close> on floating-point numbers are not defined here: the methods
  that print or read a float take the printer \<open>str_float\<close> and the reader
  \<open>parse_float\<close> of stripped text as parameters. \<^verbatim>\<open>float(s)\<close> strips the
  whitespace around its argument and raises \<^verbatim>\<open>ValueError\<close> on text that is no number.
\<close>

definition py_float :: "(string \<Rightarrow> real option) \<Rightarrow> string \<Rightarrow> error + real" where
  "py_float parse_float s =
     (case parse_float (strip s) of None \<Rightarrow> Inl ValueError | Some v \<Rightarrow> Inr v)"

section \<open>Section\<close>

datatype pen = selected_pen | deselected_pen

record scene_ellipse =
  z_value :: real
  pen :: pen

text \<open>
  A \<^verbatim>\<open>Section\<close> object: its number, its controls and its ellipse in the scene (of which
  the draw order and the pen are kept; the position that \<^verbatim>\<open>setLocation\<close> derives from the
  controls is not).
\<close>

record section_t =
  section_number :: int
  controls :: section_controls
  scene_ellipse_item :: scene_ellipse

definition Section_init :: "int \<Rightarrow> real \<Rightarrow> real \<Rightarrow> real \<Rightarrow> section_t" where
  "Section_init number x_pos y_pos angle =
     \<lparr>section_number = number,
      controls = SectionControls x_pos y_pos angle,
      scene_ellipse_item = \<lparr>z_value = 999, pen = selected_pen\<rparr>\<rparr>"

definition deselect :: "section_t \<Rightarrow> section_t" where
  "deselect sec =
     sec\<lparr>scene_ellipse_item := \<lparr>z_value = 999, pen = deselected_pen\<rparr>,
         controls := SectionControls_deselect (controls sec)\<rparr>"

definition select :: "section_t \<Rightarrow> section_t" where
  "select sec =
     sec\<lparr>scene_ellipse_item := \<lparr>z_value = 1999, pen = selected_pen\<rparr>,
         controls := SectionControls_select (controls sec)\<rparr>"

definition getAngle :: "section_t \<Rightarrow> real" where
  "getAngle sec = currentAngle (controls sec)"

definition getLocation :: "section_t \<Rightarrow> point" where
  "getLocation sec = currentLocation (controls sec)"

definition getSectionNumber :: "section_t \<Rightarrow> int" where
  "getSectionNumber sec = section_number sec"

definition incrementAngle :: "real \<Rightarrow> section_t \<Rightarrow> section_t" where
  "incrementAngle direction sec =
     sec\<lparr>controls := SectionControls_incrementAngle direction (controls sec)\<rparr>"

definition incrementX :: "real \<Rightarrow> section_t \<Rightarrow> section_t" where
  "incrementX direction sec =
     sec\<lparr>controls := SectionControls_incrementX direction (controls sec)\<rparr>"

definition incrementY :: "real \<Rightarrow> section_t \<Rightarrow> section_t" where
  "incrementY direction sec =
     sec\<lparr>controls := SectionControls_incrementY direction (controls sec)\<rparr>"

definition isChecked :: "section_t \<Rightarrow> bool" where
  "isChecked sec = SectionControls_isChecked (controls sec)"

definition setSectionNumber :: "int \<Rightarrow> section_t \<Rightarrow> section_t" where
  "setSectionNumber number sec = sec\<lparr>section_number := number\<rparr>"

text \<open>
  \<^verbatim>\<open>Section.saveToMosaicFile\<close>: the file is the text written so far, and \<^verbatim>\<open>write\<close>
  appends to it. The list handed to \<^verbatim>\<open>map(str, ...)\<close> holds the integer section number and
  three floats.
\<close>

definition mosaic_line :: "(real \<Rightarrow> string) \<Rightarrow> section_t \<Rightarrow> string" where
  "mosaic_line str_float sec =
     (let number = getSectionNumber sec;
          a_point = getLocation sec;
          angle = getAngle sec;
          x_um = getUm a_point ! 0;
          y_um = getUm a_point ! 1
      in ''section,'' @ join '','' [str_int number, str_float x_um, str_float y_um, str_float angle]
           @ CRLF)"

definition Section_saveToMosaicFile :: "(real \<Rightarrow> string) \<Rightarrow> section_t \<Rightarrow> string \<Rightarrow> string" where
  "Section_saveToMosaicFile str_float sec filep = filep @ mosaic_line str_float sec"

section \<open>The renderer and the view\<close>

text \<open>
  \<^verbatim>\<open>SectionRenderer.renderSectionPixmap\<close> grabs the viewport of a view of the scene that
  is centred on a point, rotated and scaled. The grab is the environment of the model: a
  function of the scale, the point and the angle that gives the grabbed pixmap. A grab
  that fails at one call and succeeds at the next with the same arguments is not
  expressed by a function; the examples put their sections at different points.
\<close>

type_synonym grabber = "real \<Rightarrow> point \<Rightarrow> real \<Rightarrow> qpixmap"

definition renderSectionPixmap :: "grabber \<Rightarrow> real \<Rightarrow> point \<Rightarrow> real \<Rightarrow> qpixmap" where
  "renderSectionPixmap grab scl a_point a_angle = grab scl a_point a_angle"

definition renderSectionNumpy :: "grabber \<Rightarrow> real \<Rightarrow> point \<Rightarrow> real \<Rightarrow> pyval" where
  "renderSectionNumpy grab scl a_point a_angle =
     (case renderSectionPixmap grab scl a_point a_angle of
        Some bits \<Rightarrow> NdArray (map real bits)
      | None \<Rightarrow> PyFalse)"

record sections_view =
  background_pixmap :: pyval
  foreground_pixmap :: pyval

definition SectionsView :: sections_view where
  "SectionsView = \<lparr>background_pixmap = PyNone, foreground_pixmap = PyNone\<rparr>"

section \<open>Sections\<close>

text \<open>
  The state of a \<^verbatim>\<open>Sections\<close> object. Section objects live in a store, \<open>heap\<close>, and
  are referred to by their position in it; a new object is allocated at the end and none
  is ever freed. \<open>sections\<close>, the layout of the controls list and the scene hold
  references, and so does \<open>active_section\<close>, where \<open>None\<close> stands for the
  \<^verbatim>\<open>False\<close> that the Python stores when no section is active. \<open>printed\<close> collects the
  lines of the \<^verbatim>\<open>print\<close> statement and \<open>numpy_saved\<close> the files of \<^verbatim>\<open>numpy.save\<close>.
\<close>

record sections_state =
  heap :: "section_t list"
  active_section :: "nat option"
  scale :: real
  scene :: "nat list"
  sections :: "nat list"
  sections_controls_list :: "nat list"
  view :: sections_view
  printed :: "string list"
  numpy_saved :: "(string \<times> pyval) list"

definition Sections_init :: sections_state where
  "Sections_init =
     \<lparr>heap = [], active_section = None, scale = 1, scene = [], sections = [],
      sections_controls_list = [], view = SectionsView, printed = [], numpy_saved = []\<rparr>"

text \<open>A method call on the object behind a reference.\<close>

definition on_object :: "nat \<Rightarrow> (section_t \<Rightarrow> section_t) \<Rightarrow> sections_state \<Rightarrow> sections_state" where
  "on_object r f s = s\<lparr>heap := (heap s)[r := f (heap s ! r)]\<rparr>"

definition setBackgroundPixmap :: "pyval \<Rightarrow> sections_state \<Rightarrow> sections_state" where
  "setBackgroundPixmap pixmap s = s\<lparr>view := (view s)\<lparr>background_pixmap := pixmap\<rparr>\<rparr>"

definition setForegroundPixmap :: "pyval \<Rightarrow> sections_state \<Rightarrow> sections_state" where
  "setForegroundPixmap pixmap s = s\<lparr>view := (view s)\<lparr>foreground_pixmap := pixmap\<rparr>\<rparr>"

subsection \<open>Selecting\<close>

definition handleActiveSectionUpdate :: "int \<Rightarrow> sections_state \<Rightarrow> error + sections_state" where
  "handleActiveSectionUpdate which_section s =
     (case active_section s of
        Some a \<Rightarrow>
          if getSectionNumber (heap s ! a) \<noteq> which_section then
            (let s1 = on_object a deselect s in
             case py_index (sections s1) which_section of
               Inl e \<Rightarrow> Inl e
             | Inr r \<Rightarrow> Inr (on_object r select (s1\<lparr>active_section := Some r\<rparr>)))
          else Inr s
      | None \<Rightarrow>
          (case py_index (sections s) which_section of
             Inl e \<Rightarrow> Inl e
           | Inr r \<Rightarrow> Inr (on_object r select (s\<lparr>active_section := Some r\<rparr>))))"

definition addSection :: "point \<Rightarrow> real \<Rightarrow> sections_state \<Rightarrow> error + sections_state" where
  "addSection a_point angle s =
     (let r = length (heap s);
          a_section = Section_init (int (length (sections s))) (x_um a_point) (y_um a_point) angle;
          s1 = s\<lparr>heap := heap s @ [a_section]\<rparr>;
          s2 = s1\<lparr>sections := sections s1 @ [r]\<rparr>;
          s3 = s2\<lparr>sections_controls_list := sections_controls_list s2 @ [r]\<rparr>;
          s4 = s3\<lparr>scene := scene s3 @ [r]\<rparr>
      in if active_section s4 = None then handleActiveSectionUpdate 0 s4 else Inr s4)"

definition incrementActiveSection :: "int \<Rightarrow> sections_state \<Rightarrow> error + sections_state" where
  "incrementActiveSection diff s =
     (case active_section s of
        Some a \<Rightarrow>
          if length (sections s) = 0 then Inl ZeroDivisionError
          else handleActiveSectionUpdate
                 ((getSectionNumber (heap s ! a) + diff) mod int (length (sections s))) s
      | None \<Rightarrow> Inr s)"

text \<open>The loop that renumbers the remaining sections.\<close>

definition renumber :: "sections_state \<Rightarrow> sections_state" where
  "renumber s =
     fold (\<lambda>(i, a_section). on_object a_section (setSectionNumber (int i)))
       (enumerate 0 (sections s)) s"

definition removeActiveSection :: "sections_state \<Rightarrow> error + sections_state" where
  "removeActiveSection s =
     (case active_section s of
        None \<Rightarrow> Inl AttributeError
      | Some a \<Rightarrow>
          (let s1 = s\<lparr>scene := remove1 a (scene s)\<rparr>;
               s2 = s1\<lparr>sections_controls_list := remove1 a (sections_controls_list s1)\<rparr>;
               which_section = getSectionNumber (heap s2 ! a)
           in case py_del (sections s2) which_section of
                Inl e \<Rightarrow> Inl e
              | Inr rest \<Rightarrow>
                  (let s3 = s2\<lparr>sections := rest\<rparr>;
                       s4 = s3\<lparr>active_section := None\<rparr>;
                       s5 = renumber s4
                   in if length (sections s5) > 0 then
                        (if which_section > 0 then handleActiveSectionUpdate (which_section - 1) s5
                         else handleActiveSectionUpdate 0 s5)
                      else Inr s5)))"

subsection \<open>Pixmaps\<close>

text \<open>
  \<^verbatim>\<open>numpy_background += temp\<close>: the sum of two arrays sample by sample (all renders of
  one pass have the size of the renderer), and \<^verbatim>\<open>False\<close> added to an array counts as
  zero. \<^verbatim>\<open>renderSectionNumpy\<close> returns nothing but an array or \<^verbatim>\<open>False\<close>.
\<close>

fun iadd :: "real list \<Rightarrow> pyval \<Rightarrow> real list" where
  "iadd a (NdArray b) = map2 (+) a b"
| "iadd a PyFalse = map (\<lambda>x. x + 0) a"
| "iadd a _ = a"

text \<open>\<^verbatim>\<open>astype(numpy.uint8)\<close> on a sample that is not negative.\<close>

definition uint8 :: "real \<Rightarrow> nat" where
  "uint8 x = nat (\<lfloor>x\<rfloor> mod 256)"

text \<open>
  One turn of the loop of \<^verbatim>\<open>updateBackgroundPixmap\<close>, on the sum so far, the count and
  the lines printed.
\<close>

definition background_step ::
  "grabber \<Rightarrow> sections_state \<Rightarrow> nat \<Rightarrow> pyval \<times> real \<times> string list \<Rightarrow> pyval \<times> real \<times> string list" where
  "background_step grab s r acc =
     (case acc of (numpy_background, counts, out) \<Rightarrow>
        if isChecked (heap s ! r) then
          (let temp = renderSectionNumpy grab (scale s) (getLocation (heap s ! r)) (getAngle (heap s ! r))
           in case numpy_background of
                NdArray a \<Rightarrow> (NdArray (iadd a temp), counts + 1, out)
              | _ \<Rightarrow>
                  if temp \<noteq> PyFalse then (temp, counts + 1, out)
                  else (numpy_background, counts, out @ [''updateBackgroundPixmap: conversion problem.'']))
        else acc)"

definition updateBackgroundPixmap :: "grabber \<Rightarrow> sections_state \<Rightarrow> sections_state" where
  "updateBackgroundPixmap grab s =
     (if length (sections s) = 0 then s
      else
        (case fold (background_step grab s) (sections s) (PyFalse, 0, printed s) of
           (numpy_background, counts, out) \<Rightarrow>
             (let pixmap =
                (case numpy_background of
                   NdArray a \<Rightarrow> QPixmap (Some (map (\<lambda>x. uint8 (x / counts)) a))
                 | _ \<Rightarrow> PyFalse)
              in setBackgroundPixmap pixmap (s\<lparr>printed := out\<rparr>))))"

definition updateForegroundPixmap :: "grabber \<Rightarrow> sections_state \<Rightarrow> sections_state" where
  "updateForegroundPixmap grab s =
     (case active_section s of
        None \<Rightarrow> s
      | Some a \<Rightarrow>
          setForegroundPixmap
            (QPixmap (renderSectionPixmap grab (scale s) (getLocation (heap s ! a)) (getAngle (heap s ! a))))
            s)"

definition viewUpdate :: "grabber \<Rightarrow> sections_state \<Rightarrow> sections_state" where
  "viewUpdate grab s = updateForegroundPixmap grab (updateBackgroundPixmap grab s)"

definition handleSectionUpdate :: "grabber \<Rightarrow> sections_state \<Rightarrow> error + sections_state" where
  "handleSectionUpdate grab s =
     (case active_section s of
        None \<Rightarrow> Inl AttributeError
      | Some a \<Rightarrow>
          Inr (updateForegroundPixmap grab
                 (if isChecked (heap s ! a) then updateBackgroundPixmap grab s else s)))"

definition saveSectionsNumpy :: "grabber \<Rightarrow> sections_state \<Rightarrow> sections_state" where
  "saveSectionsNumpy grab s =
     fold (\<lambda>(index, r) t.
             t\<lparr>numpy_saved := numpy_saved t @
                 [(''section_'' @ str_int (int index),
                   renderSectionNumpy grab (scale t) (getLocation (heap t ! r)) (getAngle (heap t ! r)))]\<rparr>)
       (enumerate 0 (sections s)) s"

subsection \<open>Events of the controls\<close>

text \<open>
  A change of a spin box of the active section: the method \<open>f\<close> sets the value, and when
  the value is another one than before, the signal \<^verbatim>\<open>valueChanged\<close> runs
  \<^verbatim>\<open>handleSectionUpdate\<close> through \<^verbatim>\<open>sectionChanged\<close>. With no active section the attribute
  lookup on \<^verbatim>\<open>False\<close> raises.
\<close>

definition on_active_section ::
  "grabber \<Rightarrow> (section_t \<Rightarrow> section_t) \<Rightarrow> sections_state \<Rightarrow> error + sections_state" where
  "on_active_section grab f s =
     (case active_section s of
        None \<Rightarrow> Inl AttributeError
      | Some a \<Rightarrow>
          (let s1 = on_object a f s in
           if heap s1 ! a \<noteq> heap s ! a then handleSectionUpdate grab s1 else Inr s1))"

text \<open>
  A click on the check box of the section at position \<open>i\<close> of the collection: the box
  changes state, and \<^verbatim>\<open>stateChanged\<close> runs \<^verbatim>\<open>updateBackgroundPixmap\<close> through
  \<^verbatim>\<open>sectionCheckBoxChange\<close>. There is no box to click at a position beyond the
  collection, and a run with such a click stops there.
\<close>

definition toggle_check :: "section_t \<Rightarrow> section_t" where
  "toggle_check sec = sec\<lparr>controls := (controls sec)\<lparr>check_box := \<not> check_box (controls sec)\<rparr>\<rparr>"

definition clickCheckBox :: "grabber \<Rightarrow> nat \<Rightarrow> sections_state \<Rightarrow> error + sections_state" where
  "clickCheckBox grab i s =
     (if i < length (sections s)
      then Inr (updateBackgroundPixmap grab (on_object (sections s ! i) toggle_check s))
      else Inl IndexError)"

subsection \<open>Keys\<close>

text \<open>The key codes of \<^verbatim>\<open>QtCore.Qt\<close>.\<close>

definition Key_Up :: int where "Key_Up = 16777235"
definition Key_Down :: int where "Key_Down = 16777237"
definition Key_Delete :: int where "Key_Delete = 16777223"
definition Key_W :: int where "Key_W = 87"
definition Key_S :: int where "Key_S = 83"
definition Key_A :: int where "Key_A = 65"
definition Key_D :: int where "Key_D = 68"
definition Key_Q :: int where "Key_Q = 81"
definition Key_E :: int where "Key_E = 69"
definition Key_P :: int where "Key_P = 80"
definition Key_U :: int where "Key_U = 85"

definition handleKeyEvent :: "grabber \<Rightarrow> int \<Rightarrow> sections_state \<Rightarrow> error + sections_state" where
  "handleKeyEvent grab which_key s =
     (if which_key = Key_Up then incrementActiveSection (- 1) s
      else if which_key = Key_Down then incrementActiveSection 1 s
      else if which_key = Key_W then on_active_section grab (incrementY (- 0.5)) s
      else if which_key = Key_S then on_active_section grab (incrementY 0.5) s
      else if which_key = Key_A then on_active_section grab (incrementX (- 0.5)) s
      else if which_key = Key_D then on_active_section grab (incrementX 0.5) s
      else if which_key = Key_Q then on_active_section grab (incrementAngle (- 1)) s
      else if which_key = Key_E then on_active_section grab (incrementAngle 1) s
      else if which_key = Key_P then Inr (saveSectionsNumpy grab s)
      else if which_key = Key_Delete then
        (if active_section s \<noteq> None then removeActiveSection s else Inr s)
      else if which_key = Key_U then Inr (viewUpdate grab s)
      else Inr s)"

subsection \<open>Mosaic files\<close>

definition loadFromMosaicFileData ::
  "(string \<Rightarrow> real option) \<Rightarrow> string list \<Rightarrow> string \<Rightarrow> sections_state \<Rightarrow> error + bool \<times> sections_state" where
  "loadFromMosaicFileData parse_float data directory s =
     (case py_index data 0 of
        Inl e \<Rightarrow> Inl e
      | Inr tag \<Rightarrow>
          if tag = ''section'' then
            (case py_index data 2 of Inl e \<Rightarrow> Inl e | Inr d2 \<Rightarrow>
            (case py_float parse_float d2 of Inl e \<Rightarrow> Inl e | Inr x \<Rightarrow>
            (case py_index data 3 of Inl e \<Rightarrow> Inl e | Inr d3 \<Rightarrow>
            (case py_float parse_float d3 of Inl e \<Rightarrow> Inl e | Inr y \<Rightarrow>
            (case py_index data 4 of Inl e \<Rightarrow> Inl e | Inr d4 \<Rightarrow>
            (case py_float parse_float d4 of Inl e \<Rightarrow> Inl e | Inr angle \<Rightarrow>
            (case addSection (Point_um x y) angle s of
               Inl e \<Rightarrow> Inl e
             | Inr s' \<Rightarrow> Inr (True, s'))))))))
          else Inr (False, s))"

definition saveToMosaicFile ::
  "(real \<Rightarrow> string) \<Rightarrow> string \<Rightarrow> string \<Rightarrow> sections_state \<Rightarrow> string" where
  "saveToMosaicFile str_float file_ptr filename s =
     fold (\<lambda>r filep. Section_saveToMosaicFile str_float (heap s ! r) filep) (sections s) file_ptr"

section \<open>Runs\<close>

text \<open>
  The calls that reach a \<^verbatim>\<open>Sections\<close> object, and a run of them from a state: the run
  stops at the first call that raises.
\<close>

datatype call =
    AddSection point real
  | HandleActiveSectionUpdate int
  | IncrementActiveSection int
  | RemoveActiveSection
  | HandleKeyEvent int
  | LoadFromMosaicFileData "string list" string
  | ClickCheckBox nat
  | UpdateBackgroundPixmap
  | ViewUpdate

fun exec :: "grabber \<Rightarrow> (string \<Rightarrow> real option) \<Rightarrow> call \<Rightarrow> sections_state \<Rightarrow> error + sections_state" where
  "exec grab parse_float (AddSection p a) s = addSection p a s"
| "exec grab parse_float (HandleActiveSectionUpdate i) s = handleActiveSectionUpdate i s"
| "exec grab parse_float (IncrementActiveSection d) s = incrementActiveSection d s"
| "exec grab parse_float RemoveActiveSection s = removeActiveSection s"
| "exec grab parse_float (HandleKeyEvent k) s = handleKeyEvent grab k s"
| "exec grab parse_float (LoadFromMosaicFileData data dir) s =
     (case loadFromMosaicFileData parse_float data dir s of
        Inl e \<Rightarrow> Inl e
      | Inr (recognized, s') \<Rightarrow> Inr s')"
| "exec grab parse_float (ClickCheckBox i) s = clickCheckBox grab i s"
| "exec grab parse_float UpdateBackgroundPixmap s = Inr (updateBackgroundPixmap grab s)"
| "exec grab parse_float ViewUpdate s = Inr (viewUpdate grab s)"

fun run :: "grabber \<Rightarrow> (string \<Rightarrow> real option) \<Rightarrow> call list \<Rightarrow> sections_state \<Rightarrow> error + sections_state" where
  "run grab parse_float [] s = Inr s"
| "run grab parse_float (c # cs) s =
     (case exec grab parse_float c s of
        Inl e \<Rightarrow> Inl e
      | Inr s' \<Rightarrow> run grab parse_float cs s')"

section \<open>The invariant of the collection\<close>

text \<open>
  What holds of the collection between two calls: the references of \<open>sections\<close> are
  distinct and allocated, the section numbers count the list from zero, and the selected
  sections of the list are exactly the active one. \<open>coherent\<close> allows a collection
  with no active section, as it is in the middle of \<^verbatim>\<open>addSection\<close> and
  \<^verbatim>\<open>removeActiveSection\<close>; \<open>consistent\<close> is the invariant between calls.
\<close>

definition coherent :: "sections_state \<Rightarrow> bool" where
  "coherent s \<longleftrightarrow>
     distinct (sections s) \<and>
     (\<forall>r \<in> set (sections s). r < length (heap s)) \<and>
     (\<forall>i < length (sections s). section_number (heap s ! (sections s ! i)) = int i) \<and>
     (case active_section s of
        None \<Rightarrow> \<forall>r \<in> set (sections s). \<not> selected (controls (heap s ! r))
      | Some a \<Rightarrow> a \<in> set (sections s) \<and>
          (\<forall>r \<in> set (sections s). selected (controls (heap s ! r)) \<longleftrightarrow> r = a))"

definition consistent :: "sections_state \<Rightarrow> bool" where
  "consistent s \<longleftrightarrow> coherent s \<and> (active_section s = None \<longrightarrow> sections s = [])"

text \<open>The renumbering loop, on the store alone.\<close>

primrec renum :: "nat \<Rightarrow> nat list \<Rightarrow> section_t list \<Rightarrow> section_t list" where
  "renum n [] h = h"
| "renum n (r # rs) h = renum (Suc n) rs (h[r := setSectionNumber (int n) (h ! r)])"

text \<open>
  What holds of every section object: its spin boxes have the ranges and the step that
  \<^verbatim>\<open>SectionControls.__init__\<close> gives them, and their values lie in the ranges.
\<close>

definition in_ranges :: "section_t \<Rightarrow> bool" where
  "in_ranges sec \<longleftrightarrow>
     angle_step (controls sec) = 1 \<and>
     minimum (x_spin_box (controls sec)) = - 1000000 \<and>
     maximum (x_spin_box (controls sec)) = 1000000 \<and>
     minimum (y_spin_box (controls sec)) = - 1000000 \<and>
     maximum (y_spin_box (controls sec)) = 1000000 \<and>
     minimum (angle_spin_box (controls sec)) = - 180 \<and>
     maximum (angle_spin_box (controls sec)) = 180 \<and>
     \<bar>x_um (getLocation sec)\<bar> \<le> 1000000 \<and>
     \<bar>y_um (getLocation sec)\<bar> \<le> 1000000 \<and>
     \<bar>getAngle sec\<bar> \<le> 180"

section \<open>Example inputs\<close>

text \<open>
  Inputs for the worked examples below: a grabber whose grab fails at x = 1 and gives one
  pixel of four samples elsewhere, a printer and a reader for the whole-valued floats of
  the examples (\<^verbatim>\<open>str(2.0)\<close> is \<^verbatim>\<open>'2.0'\<close>), and the calls that build three sections
  and make the one in the middle active.
\<close>

definition demo_grab :: grabber where
  "demo_grab scl p a =
     (if x_um p = 1 then None
      else if x_um p = 0 then Some [30, 60, 90, 255]
      else Some [60, 30, 0, 255])"

definition demo_str :: "real \<Rightarrow> string" where
  "demo_str v = str_int \<lfloor>v\<rfloor> @ ''.0''"

definition demo_parse :: "string \<Rightarrow> real option" where
  "demo_parse s =
     (if s = ''0.0'' then Some 0 else if s = ''1.0'' then Some 1
      else if s = ''2.0'' then Some 2 else if s = ''3.0'' then Some 3 else None)"

definition demo_calls :: "call list" where
  "demo_calls =
     [AddSection (Point_um 0 0) 0, AddSection (Point_um 1 0) 0, AddSection (Point_um 2 0) 0,
      HandleActiveSectionUpdate 1]"

text \<open>
  Three sections with their check boxes clicked one after the other, and one section that
  is checked and then deleted with the Delete key.
\<close>

definition demo_checked :: "call list" where
  "demo_checked =
     [AddSection (Point_um 0 0) 0, AddSection (Point_um 1 0) 0, AddSection (Point_um 2 0) 0,
      ClickCheckBox 0, ClickCheckBox 1, ClickCheckBox 2]"

definition demo_deleted :: "call list" where
  "demo_deleted = [AddSection (Point_um 0 0) 0, ClickCheckBox 0, HandleKeyEvent Key_Delete]"

section \<open>The invariant is kept\<close>

lemma on_object_simps [simp]:
  "heap (on_object r f s) = (heap s)[r := f (heap s ! r)]"
  "sections (on_object r f s) = sections s"
  "active_section (on_object r f s) = active_section s"
  "scene (on_object r f s) = scene s"
  "sections_controls_list (on_object r f s) = sections_controls_list s"
  "view (on_object r f s) = view s"
  "scale (on_object r f s) = scale s"
  "printed (on_object r f s) = printed s"
  "numpy_saved (on_object r f s) = numpy_saved s"
  by (simp_all add: on_object_def)

lemma select_simps [simp]:
  "section_number (select x) = section_number x"
  "selected (controls (select x)) = True"
  "section_number (deselect x) = section_number x"
  "selected (controls (deselect x)) = False"
  by (simp_all add: select_def deselect_def SectionControls_select_def SectionControls_deselect_def)

lemma py_index_Inr:
  "py_index xs i = Inr r \<Longrightarrow> r \<in> set xs"
  by (auto simp: py_index_def split: if_splits)

lemma activate_coherent:
  assumes d: "distinct (sections s)"
    and b: "\<forall>r \<in> set (sections s). r < length (heap s)"
    and n: "\<forall>i < length (sections s). section_number (heap s ! (sections s ! i)) = int i"
    and u: "\<forall>r \<in> set (sections s). \<not> selected (controls (heap s ! r))"
    and r: "r \<in> set (sections s)"
  shows "coherent (on_object r select (s\<lparr>active_section := Some r\<rparr>))"
  unfolding coherent_def using assms
  by (auto simp: nth_list_update)

lemma handleActiveSectionUpdate_coherent:
  assumes "coherent s" and "handleActiveSectionUpdate w s = Inr s'"
  shows "coherent s' \<and> active_section s' \<noteq> None \<and> sections s' = sections s \<and> length (heap s') = length (heap s)"
proof (cases "active_section s")
  case None
  with assms obtain r where r: "py_index (sections s) w = Inr r"
    and s': "s' = on_object r select (s\<lparr>active_section := Some r\<rparr>)"
    by (auto simp: handleActiveSectionUpdate_def split: sum.splits)
  from assms(1) None have "coherent s'" unfolding s'
    by (intro activate_coherent) (auto simp: coherent_def py_index_Inr[OF r])
  then show ?thesis by (simp add: s')
next
  case (Some a)
  show ?thesis
  proof (cases "getSectionNumber (heap s ! a) = w")
    case True
    with assms Some show ?thesis by (simp add: handleActiveSectionUpdate_def)
  next
    case False
    let ?s1 = "on_object a deselect s"
    from assms False Some obtain r where r: "py_index (sections s) w = Inr r"
      and s': "s' = on_object r select (?s1\<lparr>active_section := Some r\<rparr>)"
      by (auto simp: handleActiveSectionUpdate_def Let_def split: sum.splits)
    have "coherent (on_object r select ((?s1)\<lparr>active_section := Some r\<rparr>))"
      using assms(1) Some py_index_Inr[OF r]
      by (intro activate_coherent) (auto simp: coherent_def nth_list_update)
    then show ?thesis by (simp add: s')
  qed
qed


lemma addSection_coherent:
  assumes "consistent s" and "addSection p a s = Inr s'"
  shows "consistent s'"
proof -
  let ?r = "length (heap s)"
  let ?new = "Section_init (int (length (sections s))) (x_um p) (y_um p) a"
  let ?s4 = "s\<lparr>heap := heap s @ [?new], sections := sections s @ [?r],
               sections_controls_list := sections_controls_list s @ [?r],
               scene := scene s @ [?r]\<rparr>"
  have fresh: "?r \<notin> set (sections s)"
    using assms(1) by (auto simp: consistent_def coherent_def)
  have new: "section_number ?new = int (length (sections s))" "\<not> selected (controls ?new)"
    by (simp_all add: Section_init_def SectionControls_def)
  have c4: "coherent ?s4"
    using assms(1) fresh new unfolding consistent_def coherent_def
    by (auto simp: nth_append less_Suc_eq split: option.splits)
  show ?thesis
  proof (cases "active_section s")
    case None
    with assms(2) have "handleActiveSectionUpdate 0 ?s4 = Inr s'"
      by (simp add: addSection_def Let_def)
    from handleActiveSectionUpdate_coherent[OF c4 this] show ?thesis
      by (simp add: consistent_def)
  next
    case (Some b)
    with assms(2) have "s' = ?s4" by (simp add: addSection_def Let_def)
    with c4 Some show ?thesis by (simp add: consistent_def)
  qed
qed

lemma addSection_returns: "\<exists>s'. addSection p a s = Inr s'"
  by (auto simp: addSection_def Let_def handleActiveSectionUpdate_def py_index_def
      split: option.splits)

lemma fold_renumber:
  "fold (\<lambda>(i, a_section). on_object a_section (setSectionNumber (int i))) (enumerate n rs) s
     = s\<lparr>heap := renum n rs (heap s)\<rparr>"
  by (induction rs arbitrary: n s) (simp_all add: on_object_def)

lemma renumber_heap: "renumber s = s\<lparr>heap := renum 0 (sections s) (heap s)\<rparr>"
  by (simp add: renumber_def fold_renumber)

lemma length_renum [simp]: "length (renum n rs h) = length h"
  by (induction rs arbitrary: n h) simp_all

lemma controls_setSectionNumber_update:
  "controls (h[a := setSectionNumber n (h ! a)] ! r) = controls (h ! r)"
  by (cases "a < length h") (simp_all add: nth_list_update setSectionNumber_def list_update_beyond)

lemma renum_controls [simp]: "controls (renum n rs h ! r) = controls (h ! r)"
  by (induction rs arbitrary: n h) (simp_all add: controls_setSectionNumber_update)

lemma renum_other: "r \<notin> set rs \<Longrightarrow> renum n rs h ! r = h ! r"
  by (induction rs arbitrary: n h) auto

lemma renum_number:
  "distinct rs \<Longrightarrow> \<forall>r \<in> set rs. r < length h \<Longrightarrow> i < length rs \<Longrightarrow>
     section_number (renum n rs h ! (rs ! i)) = int (n + i)"
proof (induction rs arbitrary: n h i)
  case Nil
  then show ?case by simp
next
  case (Cons r rs)
  show ?case
  proof (cases i)
    case 0
    with Cons.prems show ?thesis
      by (simp add: renum_other setSectionNumber_def)
  next
    case (Suc j)
    with Cons.prems Cons.IH[of "h[r := setSectionNumber (int n) (h ! r)]" j "Suc n"]
    show ?thesis by simp
  qed
qed

lemma dense_index:
  assumes "coherent s" and "active_section s = Some a"
  shows "\<exists>k < length (sections s). sections s ! k = a \<and> getSectionNumber (heap s ! a) = int k"
proof -
  from assms have "a \<in> set (sections s)" by (simp add: coherent_def)
  then obtain k where k: "k < length (sections s)" "sections s ! k = a"
    by (auto simp: in_set_conv_nth)
  with assms(1) have "section_number (heap s ! a) = int k"
    by (auto simp: coherent_def)
  with k show ?thesis by (auto simp: getSectionNumber_def)
qed

lemma set_take_drop_distinct:
  "distinct xs \<Longrightarrow> k < length xs \<Longrightarrow> set (take k xs @ drop (Suc k) xs) = set xs - {xs ! k}"
proof -
  assume d: "distinct xs" and k: "k < length xs"
  have xs: "xs = take k xs @ (xs ! k) # drop (Suc k) xs"
    using k by (simp add: id_take_nth_drop)
  from d have "distinct (take k xs @ (xs ! k) # drop (Suc k) xs)"
    using xs by simp
  then have "xs ! k \<notin> set (take k xs) \<and> xs ! k \<notin> set (drop (Suc k) xs)" by auto
  moreover have "set xs = set (take k xs) \<union> {xs ! k} \<union> set (drop (Suc k) xs)"
    by (subst xs) auto
  ultimately show ?thesis by auto
qed

lemma distinct_take_drop: "distinct xs \<Longrightarrow> distinct (take k xs @ drop (Suc k) xs)"
  by (simp add: set_take_disj_set_drop_if_distinct)


lemma handleActiveSectionUpdate_None:
  assumes "active_section s = None" and "k < length (sections s)"
  shows "handleActiveSectionUpdate (int k) s =
           Inr (on_object (sections s ! k) select (s\<lparr>active_section := Some (sections s ! k)\<rparr>))"
  using assms by (simp add: handleActiveSectionUpdate_def py_index_def)

lemma py_del_nat:
  "k < length xs \<Longrightarrow> py_del xs (int k) = Inr (take k xs @ drop (Suc k) xs)"
  by (simp add: py_del_def del_at_def)

lemma removeActiveSection_unfold:
  assumes a: "active_section s = Some a"
    and k: "k < length (sections s)" "getSectionNumber (heap s ! a) = int k"
  shows "removeActiveSection s =
     (let rest = take k (sections s) @ drop (Suc k) (sections s);
          s5 = s\<lparr>scene := remove1 a (scene s),
                 sections_controls_list := remove1 a (sections_controls_list s),
                 sections := rest, active_section := None,
                 heap := renum 0 rest (heap s)\<rparr>
      in if rest = [] then Inr s5
         else handleActiveSectionUpdate (int (if 0 < k then k - 1 else 0)) s5)"
  using a k
  by (simp add: removeActiveSection_def Let_def py_del_nat renumber_heap int_ops)

lemma removeActiveSection_consistent:
  assumes c: "coherent s" and a: "active_section s = Some a"
  shows "\<exists>s' k. removeActiveSection s = Inr s' \<and> consistent s' \<and>
           k < length (sections s) \<and> sections s ! k = a \<and> getSectionNumber (heap s ! a) = int k \<and>
           sections s' = take k (sections s) @ drop (Suc k) (sections s) \<and>
           active_section s' =
             (if sections s' = [] then None
              else Some (sections s' ! (if 0 < k then k - 1 else 0)))"
proof -
  from dense_index[OF c a] obtain k where k: "k < length (sections s)" "sections s ! k = a"
    "getSectionNumber (heap s ! a) = int k" by blast
  let ?rest = "take k (sections s) @ drop (Suc k) (sections s)"
  let ?s5 = "s\<lparr>scene := remove1 a (scene s),
                 sections_controls_list := remove1 a (sections_controls_list s),
                 sections := ?rest, active_section := None,
                 heap := renum 0 ?rest (heap s)\<rparr>"
  let ?j = "if 0 < k then k - 1 else 0"
  from c have d: "distinct (sections s)" by (simp add: coherent_def)
  have set_rest: "set ?rest = set (sections s) - {a}"
    using set_take_drop_distinct[OF d k(1)] k(2) by simp
  have d_rest: "distinct ?rest" using d by (rule distinct_take_drop)
  have b_rest: "\<forall>r \<in> set ?rest. r < length (heap s)"
    using c set_rest by (auto simp: coherent_def)
  have len_rest: "length ?rest = length (sections s) - 1" using k(1) by simp
  have c5: "coherent ?s5"
    unfolding coherent_def
  proof (intro conjI)
    show "distinct (sections ?s5)" using d_rest by simp
    show "\<forall>r \<in> set (sections ?s5). r < length (heap ?s5)" using b_rest by simp
    show "\<forall>i < length (sections ?s5). section_number (heap ?s5 ! (sections ?s5 ! i)) = int i"
      using renum_number[OF d_rest b_rest, of _ 0] by simp
    show "case active_section ?s5 of
            None \<Rightarrow> \<forall>r \<in> set (sections ?s5). \<not> selected (controls (heap ?s5 ! r))
          | Some a \<Rightarrow> a \<in> set (sections ?s5) \<and>
              (\<forall>r \<in> set (sections ?s5). selected (controls (heap ?s5 ! r)) \<longleftrightarrow> r = a)"
      using c a set_rest by (auto simp: coherent_def)
  qed
  have unf: "removeActiveSection s =
      (if ?rest = [] then Inr ?s5 else handleActiveSectionUpdate (int ?j) ?s5)"
    using removeActiveSection_unfold[OF a k(1) k(3)] by (simp add: Let_def)
  show ?thesis
  proof (cases "?rest = []")
    case True
    have r: "removeActiveSection s = Inr ?s5"
      unfolding unf by (rule if_P[OF True])
    have w: "consistent ?s5"
      unfolding consistent_def
    proof (intro conjI impI)
      show "coherent ?s5" by (rule c5)
      show "sections ?s5 = []" using True by simp
    qed
    show ?thesis
    proof (intro exI conjI)
      show "removeActiveSection s = Inr ?s5" by (rule r)
      show "consistent ?s5" by (rule w)
      show "k < length (sections s)" by (rule k(1))
      show "sections s ! k = a" by (rule k(2))
      show "getSectionNumber (heap s ! a) = int k" by (rule k(3))
      show "sections ?s5 = ?rest" by simp
      show "active_section ?s5 =
          (if sections ?s5 = [] then None else Some (sections ?s5 ! (if 0 < k then k - 1 else 0)))"
        using True by simp
    qed
  next
    case False
    then have j: "?j < length (sections ?s5)"
      using k(1) len_rest by (auto simp: neq_Nil_conv simp del: length_0_conv)
    let ?r = "sections ?s5 ! ?j"
    let ?s' = "on_object ?r select (?s5\<lparr>active_section := Some ?r\<rparr>)"
    have h: "handleActiveSectionUpdate (int ?j) ?s5 = Inr ?s'"
      by (rule handleActiveSectionUpdate_None[OF _ j]) simp
    have r0: "removeActiveSection s = handleActiveSectionUpdate (int ?j) ?s5"
      unfolding unf by (rule if_not_P[OF False])
    have r: "removeActiveSection s = Inr ?s'"
      using r0 h by (rule trans)
    from handleActiveSectionUpdate_coherent[OF c5 h] have w: "consistent ?s'" by (simp add: consistent_def)
    show ?thesis
    proof (intro exI conjI)
      show "removeActiveSection s = Inr ?s'" by (rule r)
      show "consistent ?s'" by (rule w)
      show "k < length (sections s)" by (rule k(1))
      show "sections s ! k = a" by (rule k(2))
      show "getSectionNumber (heap s ! a) = int k" by (rule k(3))
      show "sections ?s' = ?rest" by simp
      show "active_section ?s' =
          (if sections ?s' = [] then None else Some (sections ?s' ! (if 0 < k then k - 1 else 0)))"
        using False by simp
    qed
  qed
qed


lemma consistent_frame:
  "heap t = heap s \<Longrightarrow> sections t = sections s \<Longrightarrow> active_section t = active_section s \<Longrightarrow>
     consistent t = consistent s"
  by (simp add: consistent_def coherent_def cong: option.case_cong)

lemma updateBackgroundPixmap_frame [simp]:
  "heap (updateBackgroundPixmap grab s) = heap s"
  "sections (updateBackgroundPixmap grab s) = sections s"
  "active_section (updateBackgroundPixmap grab s) = active_section s"
  by (simp_all add: updateBackgroundPixmap_def setBackgroundPixmap_def split: prod.splits)

lemma updateForegroundPixmap_frame [simp]:
  "heap (updateForegroundPixmap grab s) = heap s"
  "sections (updateForegroundPixmap grab s) = sections s"
  "active_section (updateForegroundPixmap grab s) = active_section s"
  by (simp_all add: updateForegroundPixmap_def setForegroundPixmap_def split: option.splits)

lemma fold_numpy_saved_frame:
  assumes "\<And>p t. heap (f p t) = heap t \<and> sections (f p t) = sections t \<and>
             active_section (f p t) = active_section t"
  shows "heap (fold f ps s) = heap s \<and> sections (fold f ps s) = sections s \<and>
         active_section (fold f ps s) = active_section s"
  by (induction ps arbitrary: s) (simp_all add: assms)

lemma saveSectionsNumpy_frame [simp]:
  "heap (saveSectionsNumpy grab s) = heap s"
  "sections (saveSectionsNumpy grab s) = sections s"
  "active_section (saveSectionsNumpy grab s) = active_section s"
  unfolding saveSectionsNumpy_def
  by (simp_all add: fold_numpy_saved_frame split: prod.splits)

lemma consistent_on_object:
  assumes "consistent s"
    and "\<And>x. section_number (f x) = section_number x"
    and "\<And>x. selected (controls (f x)) = selected (controls x)"
  shows "consistent (on_object r f s)"
proof (cases "r < length (heap s)")
  case True
  with assms show ?thesis
    by (auto simp: consistent_def coherent_def nth_list_update split: option.splits)
next
  case False
  then have "heap (on_object r f s) = heap s" by (simp add: list_update_beyond)
  then show ?thesis using assms(1) consistent_frame[of "on_object r f s" s] by simp
qed

lemma consistent_updateBackgroundPixmap: "consistent s \<Longrightarrow> consistent (updateBackgroundPixmap grab s)"
  using consistent_frame[of "updateBackgroundPixmap grab s" s] by simp

lemma consistent_updateForegroundPixmap: "consistent s \<Longrightarrow> consistent (updateForegroundPixmap grab s)"
  using consistent_frame[of "updateForegroundPixmap grab s" s] by simp

lemma consistent_saveSectionsNumpy: "consistent s \<Longrightarrow> consistent (saveSectionsNumpy grab s)"
  using consistent_frame[of "saveSectionsNumpy grab s" s] by simp

lemma consistent_viewUpdate: "consistent s \<Longrightarrow> consistent (viewUpdate grab s)"
  by (simp add: viewUpdate_def consistent_updateBackgroundPixmap consistent_updateForegroundPixmap)

lemma handleSectionUpdate_consistent:
  "consistent s \<Longrightarrow> handleSectionUpdate grab s = Inr s' \<Longrightarrow> consistent s'"
  by (auto simp: handleSectionUpdate_def consistent_updateBackgroundPixmap consistent_updateForegroundPixmap
      split: option.splits if_splits)

lemma nudge_simps [simp]:
  "section_number (incrementX d x) = section_number x"
  "selected (controls (incrementX d x)) = selected (controls x)"
  "section_number (incrementY d x) = section_number x"
  "selected (controls (incrementY d x)) = selected (controls x)"
  "section_number (incrementAngle d x) = section_number x"
  "selected (controls (incrementAngle d x)) = selected (controls x)"
  "section_number (toggle_check x) = section_number x"
  "selected (controls (toggle_check x)) = selected (controls x)"
  by (simp_all add: incrementX_def incrementY_def incrementAngle_def toggle_check_def
      SectionControls_incrementX_def SectionControls_incrementY_def
      SectionControls_incrementAngle_def Let_def)

lemma on_active_section_consistent:
  assumes "consistent s" and "on_active_section grab f s = Inr s'"
    and "\<And>x. section_number (f x) = section_number x"
    and "\<And>x. selected (controls (f x)) = selected (controls x)"
  shows "consistent s'"
proof -
  from assms(2) obtain a where a: "active_section s = Some a"
    by (auto simp: on_active_section_def split: option.splits)
  have w1: "consistent (on_object a f s)" using assms(1,3,4) by (rule consistent_on_object)
  from assms(2) a have "s' = on_object a f s \<or> handleSectionUpdate grab (on_object a f s) = Inr s'"
    by (auto simp: on_active_section_def Let_def split: if_splits)
  with w1 show ?thesis using handleSectionUpdate_consistent by blast
qed

lemma handleActiveSectionUpdate_consistent:
  "consistent s \<Longrightarrow> handleActiveSectionUpdate w s = Inr s' \<Longrightarrow> consistent s'"
  using handleActiveSectionUpdate_coherent[of s w s'] by (auto simp: consistent_def)

lemma incrementActiveSection_consistent:
  "consistent s \<Longrightarrow> incrementActiveSection d s = Inr s' \<Longrightarrow> consistent s'"
  by (auto simp: incrementActiveSection_def split: option.splits if_splits
      dest: handleActiveSectionUpdate_consistent)

lemma removeActiveSection_keeps:
  assumes "consistent s" and "removeActiveSection s = Inr s'"
  shows "consistent s'"
proof -
  from assms(2) obtain a where a: "active_section s = Some a"
    by (auto simp: removeActiveSection_def split: option.splits)
  from assms(1) have "coherent s" by (simp add: consistent_def)
  from removeActiveSection_consistent[OF this a] assms(2) show ?thesis by auto
qed

lemma handleKeyEvent_branches:
  "handleKeyEvent grab k s \<in>
     {incrementActiveSection (- 1) s, incrementActiveSection 1 s,
      on_active_section grab (incrementY (- 0.5)) s, on_active_section grab (incrementY 0.5) s,
      on_active_section grab (incrementX (- 0.5)) s, on_active_section grab (incrementX 0.5) s,
      on_active_section grab (incrementAngle (- 1)) s, on_active_section grab (incrementAngle 1) s,
      Inr (saveSectionsNumpy grab s), removeActiveSection s, Inr (viewUpdate grab s), Inr s}"
  by (simp add: handleKeyEvent_def)

lemma handleKeyEvent_cases:
  assumes "handleKeyEvent grab k s = Inr s'"
  obtains (inc) d where "incrementActiveSection d s = Inr s'"
  | (nx) d where "on_active_section grab (incrementX d) s = Inr s'"
  | (ny) d where "on_active_section grab (incrementY d) s = Inr s'"
  | (na) d where "on_active_section grab (incrementAngle d) s = Inr s'"
  | (p) "s' = saveSectionsNumpy grab s"
  | (del) "removeActiveSection s = Inr s'"
  | (u) "s' = viewUpdate grab s"
  | (same) "s' = s"
proof -
  from handleKeyEvent_branches[of grab k s] assms
  have "Inr s' \<in>
     {incrementActiveSection (- 1) s, incrementActiveSection 1 s,
      on_active_section grab (incrementY (- 0.5)) s, on_active_section grab (incrementY 0.5) s,
      on_active_section grab (incrementX (- 0.5)) s, on_active_section grab (incrementX 0.5) s,
      on_active_section grab (incrementAngle (- 1)) s, on_active_section grab (incrementAngle 1) s,
      Inr (saveSectionsNumpy grab s), removeActiveSection s, Inr (viewUpdate grab s), Inr s}"
    by (simp only:)
  then show ?thesis
    by (elim insertE emptyE) (metis that sum.inject)+
qed

lemma handleKeyEvent_consistent:
  assumes "consistent s" and "handleKeyEvent grab k s = Inr s'"
  shows "consistent s'"
  using assms(2)
proof (cases rule: handleKeyEvent_cases)
  case (inc d)
  with assms(1) show ?thesis by (rule incrementActiveSection_consistent)
next
  case (nx d)
  with assms(1) show ?thesis by (rule on_active_section_consistent) simp_all
next
  case (ny d)
  with assms(1) show ?thesis by (rule on_active_section_consistent) simp_all
next
  case (na d)
  with assms(1) show ?thesis by (rule on_active_section_consistent) simp_all
next
  case p
  with assms(1) show ?thesis by (simp add: consistent_saveSectionsNumpy)
next
  case del
  with assms(1) show ?thesis by (rule removeActiveSection_keeps)
next
  case u
  with assms(1) show ?thesis by (simp add: consistent_viewUpdate)
next
  case same
  with assms(1) show ?thesis by simp
qed

lemma loadFromMosaicFileData_consistent:
  assumes "consistent s" and "loadFromMosaicFileData pf data dir s = Inr (b, s')"
  shows "consistent s'"
  using assms
  by (auto simp: loadFromMosaicFileData_def split: sum.splits if_splits
      dest: addSection_coherent)

lemma clickCheckBox_consistent:
  assumes "consistent s" and "clickCheckBox grab i s = Inr s'"
  shows "consistent s'"
proof -
  from assms(2) have s': "s' = updateBackgroundPixmap grab (on_object (sections s ! i) toggle_check s)"
    by (auto simp: clickCheckBox_def split: if_splits)
  have "consistent (on_object (sections s ! i) toggle_check s)"
    using assms(1) by (rule consistent_on_object) simp_all
  then show ?thesis unfolding s' by (rule consistent_updateBackgroundPixmap)
qed

lemma exec_consistent:
  assumes "consistent s" and "exec grab pf c s = Inr s'"
  shows "consistent s'"
proof (cases c)
  case (LoadFromMosaicFileData data dir)
  with assms show ?thesis
    by (auto split: sum.splits dest: loadFromMosaicFileData_consistent)
next
  case UpdateBackgroundPixmap
  with assms show ?thesis by (auto simp: consistent_updateBackgroundPixmap)
next
  case ViewUpdate
  with assms show ?thesis by (auto simp: consistent_viewUpdate)
qed (use assms in \<open>auto dest: addSection_coherent handleActiveSectionUpdate_consistent
      incrementActiveSection_consistent removeActiveSection_keeps handleKeyEvent_consistent clickCheckBox_consistent\<close>)

lemma run_consistent:
  "consistent s \<Longrightarrow> run grab pf cs s = Inr s' \<Longrightarrow> consistent s'"
proof (induction cs arbitrary: s)
  case Nil
  then show ?case by simp
next
  case (Cons c cs)
  then show ?case by (auto split: sum.splits dest: exec_consistent)
qed

lemma consistent_init: "consistent Sections_init"
  by (simp add: consistent_def coherent_def Sections_init_def)

lemma reachable_consistent: "run grab pf cs Sections_init = Inr s \<Longrightarrow> consistent s"
  using run_consistent[OF consistent_init] .

lemma Inr_projr: "\<not> isl r \<Longrightarrow> r = Inr (projr r)"
  by (rule sum.collapse(2)[symmetric])

lemma filter_eq_distinct: "distinct xs \<Longrightarrow> a \<in> set xs \<Longrightarrow> filter ((=) a) xs = [a]"
  by (induction xs) (auto simp: filter_empty_conv)

lemma consistent_numbers:
  "consistent s \<Longrightarrow> i < length (sections s) \<Longrightarrow> section_number (heap s ! (sections s ! i)) = int i"
  unfolding consistent_def coherent_def by blast

lemma fold_background_step_unchecked:
  "\<forall>r \<in> set rs. \<not> isChecked (heap s ! r) \<Longrightarrow> fold (background_step grab s) rs acc = acc"
  by (induction rs arbitrary: acc) (simp_all add: background_step_def split: prod.splits)

section \<open>Text of a mosaic line\<close>

lemma neq_char_of: "of_char c \<noteq> n mod 256 \<Longrightarrow> c \<noteq> char_of (n::nat)"
  by auto

lemma digit_char_not_comma: "d < 10 \<Longrightarrow> CHR '','' \<noteq> digit_char d"
  unfolding digit_char_def by (rule neq_char_of) simp

lemma str_nat_no_comma: "CHR '','' \<notin> set (str_nat n)"
proof (induction n rule: str_nat.induct)
  case (1 n)
  show ?case
  proof (cases "n < 10")
    case True
    then show ?thesis by (subst str_nat.simps) (simp add: digit_char_not_comma)
  next
    case False
    with 1 show ?thesis by (subst str_nat.simps) (simp add: digit_char_not_comma)
  qed
qed

lemma str_int_no_comma: "CHR '','' \<notin> set (str_int i)"
  by (simp add: str_int_def str_nat_no_comma)

lemma CRLF_no_comma: "CHR '','' \<notin> set CRLF"
  by (simp add: CRLF_def neq_char_of)

lemma py_split_no_sep: "c \<notin> set a \<Longrightarrow> py_split c a = [a]"
  by (induction a) auto

lemma py_split_field: "c \<notin> set a \<Longrightarrow> py_split c (a @ c # rest) = a # py_split c rest"
  by (induction a) auto

lemma mosaic_line_eq:
  "mosaic_line str_float sec =
     ''section'' @ CHR '','' # str_int (getSectionNumber sec) @ CHR '','' #
       str_float (x_um (getLocation sec)) @ CHR '','' # str_float (y_um (getLocation sec)) @
       CHR '','' # (str_float (getAngle sec) @ CRLF)"
  by (simp add: mosaic_line_def getUm_def Let_def)

lemma py_split_mosaic_line:
  assumes "\<forall>v. CHR '','' \<notin> set (str_float v)"
  shows "py_split CHR '','' (mosaic_line str_float sec) =
           [''section'', str_int (getSectionNumber sec), str_float (x_um (getLocation sec)),
            str_float (y_um (getLocation sec)), str_float (getAngle sec) @ CRLF]"
proof -
  have s: "CHR '','' \<notin> set ''section''" by simp
  have a: "CHR '','' \<notin> set (str_float (getAngle sec) @ CRLF)"
    using assms by (simp add: CRLF_no_comma)
  show ?thesis
    unfolding mosaic_line_eq
    by (simp only: py_split_field[OF s] py_split_field[OF str_int_no_comma]
        py_split_field[OF assms[rule_format]] py_split_no_sep[OF a])
qed

lemma demo_str_no_comma: "CHR '','' \<notin> set (demo_str v)"
  by (simp add: demo_str_def str_int_no_comma)

section \<open>Reading a mosaic line\<close>

lemma isspace_CRLF: "\<forall>c \<in> set CRLF. isspace c"
  by (simp add: CRLF_def isspace_def)

lemma dropWhile_isspace_rev_CRLF: "dropWhile isspace (rev CRLF @ t) = dropWhile isspace t"
  by (rule dropWhile_append2) (use isspace_CRLF in simp)

lemma strip_CRLF: "strip (t @ CRLF) = strip t"
proof (cases "\<forall>c \<in> set t. isspace c")
  case True
  then have a: "dropWhile isspace (t @ CRLF) = []" and b: "dropWhile isspace t = []"
    using isspace_CRLF by (simp_all add: dropWhile_eq_Nil_conv ball_Un)
  show ?thesis unfolding strip_def a b ..
next
  case False
  then obtain c where "c \<in> set t" "\<not> isspace c" by blast
  then have "dropWhile isspace (t @ CRLF) = dropWhile isspace t @ CRLF"
    by (rule dropWhile_append1)
  then show ?thesis by (simp add: strip_def dropWhile_isspace_rev_CRLF)
qed

lemma py_float_CRLF: "py_float parse_float (t @ CRLF) = py_float parse_float t"
  by (simp add: py_float_def strip_CRLF)

lemma qBound_close:
  "lo \<le> v \<Longrightarrow> v \<le> hi \<Longrightarrow> \<bar>qBound lo v' hi - v\<bar> \<le> \<bar>v' - v\<bar>"
  by (auto simp: qBound_def max_def min_def)

lemma Section_init_values:
  "x_um (getLocation (Section_init n x y a)) = qBound (- 1000000) x 1000000"
  "y_um (getLocation (Section_init n x y a)) = qBound (- 1000000) y 1000000"
  "getAngle (Section_init n x y a) = qBound (- 180) a 180"
  "section_number (Section_init n x y a) = n"
  by (simp_all add: Section_init_def SectionControls_def SectionSpinBox_def setValue_def
      getLocation_def getAngle_def currentLocation_def currentAngle_def Point_um_def)

lemma select_values [simp]:
  "getLocation (select x) = getLocation x" "getAngle (select x) = getAngle x"
  by (simp_all add: select_def SectionControls_select_def getLocation_def getAngle_def
      currentLocation_def currentAngle_def)

lemma nth_update_object:
  "(h[r := f (h ! r)]) ! j = (if r = j \<and> r < length h then f (h ! j) else h ! j)"
  by (cases "r < length h") (auto simp: nth_list_update list_update_beyond)

lemma addSection_new:
  assumes "addSection p a s = Inr s'"
  shows "sections s' = sections s @ [length (heap s)] \<and>
         getLocation (heap s' ! length (heap s))
           = getLocation (Section_init (int (length (sections s))) (x_um p) (y_um p) a) \<and>
         getAngle (heap s' ! length (heap s))
           = getAngle (Section_init (int (length (sections s))) (x_um p) (y_um p) a) \<and>
         section_number (heap s' ! length (heap s)) = int (length (sections s))"
  using assms
  by (auto simp: addSection_def Let_def handleActiveSectionUpdate_def nth_update_object
      Section_init_values split: option.splits sum.splits if_splits)

lemma py_index_update_other:
  "py_index (xs[Suc 0 := v]) 0 = py_index xs 0"
  "py_index (xs[Suc 0 := v]) 2 = py_index xs 2"
  "py_index (xs[Suc 0 := v]) 3 = py_index xs 3"
  "py_index (xs[Suc 0 := v]) 4 = py_index xs 4"
  by (simp_all add: py_index_def)

lemma loadFromMosaicFileData_fields:
  assumes "py_float parse_float d2 = Inr x" "py_float parse_float d3 = Inr y"
    "py_float parse_float d4 = Inr a"
  shows "loadFromMosaicFileData parse_float [''section'', d1, d2, d3, d4] directory s =
           (case addSection (Point_um x y) a s of Inl e \<Rightarrow> Inl e | Inr s' \<Rightarrow> Inr (True, s'))"
  using assms by (simp add: loadFromMosaicFileData_def py_index_def)

section \<open>Spin boxes stay in their ranges\<close>

lemmas in_ranges_defs = in_ranges_def getLocation_def getAngle_def currentLocation_def
  currentAngle_def Point_um_def setValue_def qBound_def

lemma in_ranges_Section_init: "in_ranges (Section_init n x y a)"
  by (auto simp: in_ranges_defs Section_init_def SectionControls_def SectionSpinBox_def
      abs_le_iff)

lemma in_ranges_methods:
  "in_ranges x \<Longrightarrow> in_ranges (select x)"
  "in_ranges x \<Longrightarrow> in_ranges (deselect x)"
  "in_ranges x \<Longrightarrow> in_ranges (setSectionNumber n x)"
  "in_ranges x \<Longrightarrow> in_ranges (toggle_check x)"
  "in_ranges x \<Longrightarrow> in_ranges (incrementX d x)"
  "in_ranges x \<Longrightarrow> in_ranges (incrementY d x)"
  "in_ranges x \<Longrightarrow> in_ranges (incrementAngle d x)"
  by (auto simp: in_ranges_defs select_def deselect_def setSectionNumber_def toggle_check_def
      incrementX_def incrementY_def incrementAngle_def SectionControls_select_def
      SectionControls_deselect_def SectionControls_incrementX_def SectionControls_incrementY_def
      SectionControls_incrementAngle_def Let_def abs_le_iff)

lemma list_all_update_object:
  "list_all P h \<Longrightarrow> (\<And>x. P x \<Longrightarrow> P (f x)) \<Longrightarrow> list_all P (h[r := f (h ! r)])"
  by (cases "r < length h")
    (auto simp: list_all_length nth_list_update list_update_beyond)

lemma ranges_on_object:
  "list_all in_ranges (heap s) \<Longrightarrow> (\<And>x. in_ranges x \<Longrightarrow> in_ranges (f x)) \<Longrightarrow>
     list_all in_ranges (heap (on_object r f s))"
  by (simp add: list_all_update_object)

lemma ranges_handleActiveSectionUpdate:
  assumes "list_all in_ranges (heap s)" and "handleActiveSectionUpdate w s = Inr s'"
  shows "list_all in_ranges (heap s')"
  using assms
  by (auto simp: handleActiveSectionUpdate_def Let_def in_ranges_methods
      split: option.splits sum.splits if_splits intro!: list_all_update_object)

lemma ranges_addSection:
  assumes "list_all in_ranges (heap s)" and "addSection p a s = Inr s'"
  shows "list_all in_ranges (heap s')"
proof -
  let ?t = "s\<lparr>heap := heap s @ [Section_init (int (length (sections s))) (x_um p) (y_um p) a],
              sections := sections s @ [length (heap s)],
              sections_controls_list := sections_controls_list s @ [length (heap s)],
              scene := scene s @ [length (heap s)]\<rparr>"
  have t: "list_all in_ranges (heap ?t)" using assms(1) by (simp add: in_ranges_Section_init)
  from assms(2) have "s' = ?t \<or> handleActiveSectionUpdate 0 ?t = Inr s'"
    by (auto simp: addSection_def Let_def split: if_splits)
  with t show ?thesis using ranges_handleActiveSectionUpdate by blast
qed

lemma ranges_renum: "list_all in_ranges h \<Longrightarrow> list_all in_ranges (renum n rs h)"
  by (induction rs arbitrary: n h) (simp_all add: list_all_update_object in_ranges_methods)

lemma ranges_removeActiveSection:
  assumes "list_all in_ranges (heap s)" and "removeActiveSection s = Inr s'"
  shows "list_all in_ranges (heap s')"
  using assms
  by (auto simp: removeActiveSection_def Let_def renumber_heap ranges_renum
      split: option.splits sum.splits if_splits
      dest!: ranges_handleActiveSectionUpdate[rotated])

lemma ranges_handleSectionUpdate:
  "list_all in_ranges (heap s) \<Longrightarrow> handleSectionUpdate grab s = Inr s' \<Longrightarrow>
     list_all in_ranges (heap s')"
  by (auto simp: handleSectionUpdate_def split: option.splits if_splits)

lemma ranges_on_active_section:
  assumes "list_all in_ranges (heap s)" and "on_active_section grab f s = Inr s'"
    and "\<And>x. in_ranges x \<Longrightarrow> in_ranges (f x)"
  shows "list_all in_ranges (heap s')"
proof -
  from assms(2) obtain a where
    "s' = on_object a f s \<or> handleSectionUpdate grab (on_object a f s) = Inr s'"
    by (auto simp: on_active_section_def Let_def split: option.splits if_splits)
  moreover have "list_all in_ranges (heap (on_object a f s))"
    using assms(1,3) by (rule ranges_on_object)
  ultimately show ?thesis using ranges_handleSectionUpdate by blast
qed

lemma ranges_handleKeyEvent:
  assumes "list_all in_ranges (heap s)" and "handleKeyEvent grab k s = Inr s'"
  shows "list_all in_ranges (heap s')"
  using assms(2)
proof (cases rule: handleKeyEvent_cases)
  case (inc d)
  with assms(1) show ?thesis
    by (auto simp: incrementActiveSection_def split: option.splits if_splits
        dest: ranges_handleActiveSectionUpdate)
next
  case (nx d)
  with assms(1) show ?thesis by (rule ranges_on_active_section) (rule in_ranges_methods)
next
  case (ny d)
  with assms(1) show ?thesis by (rule ranges_on_active_section) (rule in_ranges_methods)
next
  case (na d)
  with assms(1) show ?thesis by (rule ranges_on_active_section) (rule in_ranges_methods)
next
  case p
  with assms(1) show ?thesis by simp
next
  case del
  with assms(1) show ?thesis by (rule ranges_removeActiveSection)
next
  case u
  with assms(1) show ?thesis by (simp add: viewUpdate_def)
next
  case same
  with assms(1) show ?thesis by simp
qed

lemma ranges_exec:
  assumes "list_all in_ranges (heap s)" and "exec grab pf c s = Inr s'"
  shows "list_all in_ranges (heap s')"
proof (cases c)
  case (AddSection p a)
  with assms show ?thesis by (auto dest: ranges_addSection)
next
  case (HandleActiveSectionUpdate w)
  with assms show ?thesis by (auto dest: ranges_handleActiveSectionUpdate)
next
  case (IncrementActiveSection d)
  with assms show ?thesis
    by (auto simp: incrementActiveSection_def split: option.splits if_splits
        dest: ranges_handleActiveSectionUpdate)
next
  case RemoveActiveSection
  with assms show ?thesis by (auto dest: ranges_removeActiveSection)
next
  case (HandleKeyEvent k)
  with assms show ?thesis by (auto dest: ranges_handleKeyEvent)
next
  case (LoadFromMosaicFileData data dir)
  with assms show ?thesis
    by (auto simp: loadFromMosaicFileData_def split: sum.splits if_splits dest: ranges_addSection)
next
  case (ClickCheckBox i)
  with assms show ?thesis
    by (auto simp: clickCheckBox_def in_ranges_methods split: if_splits
        intro!: list_all_update_object)
next
  case UpdateBackgroundPixmap
  with assms show ?thesis by auto
next
  case ViewUpdate
  with assms show ?thesis by (auto simp: viewUpdate_def)
qed

lemma reachable_in_ranges:
  assumes "run grab pf cs Sections_init = Inr s" and "r < length (heap s)"
  shows "in_ranges (heap s ! r)"
proof -
  have "list_all in_ranges (heap t) \<Longrightarrow> run grab pf cs t = Inr s \<Longrightarrow> list_all in_ranges (heap s)"
    for t
  proof (induction cs arbitrary: t)
    case Nil
    then show ?case by simp
  next
    case (Cons c cs)
    then show ?case by (auto split: sum.splits dest: ranges_exec)
  qed
  moreover have "list_all in_ranges (heap Sections_init)" by (simp add: Sections_init_def)
  ultimately have "list_all in_ranges (heap s)" using assms(1) by blast
  with assms(2) show ?thesis by (simp add: list_all_length)
qed

section \<open>The background composite\<close>

text \<open>
  Claim C1 has a failed render count for neither the sum nor the count of the composite.
  With three checked sections whose renders are (30, 60, 90, 255), a failure and
  (60, 30, 0, 255), the composite of \<^verbatim>\<open>updateBackgroundPixmap\<close> is (30, 30, 30, 170), the
  sum divided by 3, where the average of the two renders is (45, 45, 45, 255); and nothing
  is printed. The loop skips a failed render only while no render has succeeded yet.
\<close>

theorem failed_render_is_counted:
  "\<not> isl (run demo_grab demo_parse demo_checked Sections_init) \<and>
   map (\<lambda>r. (isChecked (heap (projr (run demo_grab demo_parse demo_checked Sections_init)) ! r),
              renderSectionNumpy demo_grab 1
                (getLocation (heap (projr (run demo_grab demo_parse demo_checked Sections_init)) ! r))
                (getAngle (heap (projr (run demo_grab demo_parse demo_checked Sections_init)) ! r))))
     (sections (projr (run demo_grab demo_parse demo_checked Sections_init)))
     = [(True, NdArray [30, 60, 90, 255]), (True, PyFalse), (True, NdArray [60, 30, 0, 255])] \<and>
   background_pixmap (view (projr (run demo_grab demo_parse demo_checked Sections_init)))
     = QPixmap (Some [30, 30, 30, 170]) \<and>
   background_pixmap (view (updateBackgroundPixmap demo_grab
       (projr (run demo_grab demo_parse demo_checked Sections_init))))
     = QPixmap (Some [30, 30, 30, 170]) \<and>
   printed (updateBackgroundPixmap demo_grab
       (projr (run demo_grab demo_parse demo_checked Sections_init))) = []"
  by code_simp

section \<open>Section numbers\<close>

text \<open>
  Claim C2. After every sequence of calls that return, among them every sequence of
  \<^verbatim>\<open>addSection\<close> and \<^verbatim>\<open>removeActiveSection\<close>, the section numbers of the sections of the
  collection are 0, 1, ..., count - 1 in list order.
\<close>

theorem section_numbers_dense:
  assumes "run grab parse_float cs Sections_init = Inr s"
  shows "map (\<lambda>r. section_number (heap s ! r)) (sections s) = map int [0..<length (sections s)]"
proof -
  from reachable_consistent[OF assms] have
    n: "\<forall>i < length (sections s). section_number (heap s ! (sections s ! i)) = int i"
    unfolding consistent_def coherent_def by blast
  show ?thesis
  proof (rule nth_equalityI)
    show "length (map (\<lambda>r. section_number (heap s ! r)) (sections s))
        = length (map int [0..<length (sections s)])" by simp
  next
    fix i assume "i < length (map (\<lambda>r. section_number (heap s ! r)) (sections s))"
    then have "i < length (sections s)" by simp
    with n show "map (\<lambda>r. section_number (heap s ! r)) (sections s) ! i
        = map int [0..<length (sections s)] ! i" by simp
  qed
qed

theorem section_numbers_dense_witness:
  "run demo_grab demo_parse (demo_calls @ [RemoveActiveSection, AddSection (Point_um 5 5) 0]) Sections_init
     = Inr (projr (run demo_grab demo_parse
         (demo_calls @ [RemoveActiveSection, AddSection (Point_um 5 5) 0]) Sections_init)) \<and>
   map (\<lambda>r. section_number
         (heap (projr (run demo_grab demo_parse
            (demo_calls @ [RemoveActiveSection, AddSection (Point_um 5 5) 0]) Sections_init)) ! r))
     (sections (projr (run demo_grab demo_parse
        (demo_calls @ [RemoveActiveSection, AddSection (Point_um 5 5) 0]) Sections_init)))
     = [0, 1, 2]"
proof -
  let ?r = "run demo_grab demo_parse
      (demo_calls @ [RemoveActiveSection, AddSection (Point_um 5 5) 0]) Sections_init"
  have "\<not> isl ?r" and len: "length (sections (projr ?r)) = 3"
    by code_simp+
  then have r: "?r = Inr (projr ?r)" by (intro Inr_projr)
  from section_numbers_dense[OF r] len
  have "map (\<lambda>r. section_number (heap (projr ?r) ! r)) (sections (projr ?r)) = [0, 1, 2]"
    by (simp add: upt_rec)
  with r show ?thesis by simp
qed

section \<open>The selected section\<close>

text \<open>
  Claim C3. After every sequence of calls that return (\<^verbatim>\<open>addSection\<close>,
  \<^verbatim>\<open>handleActiveSectionUpdate\<close>, \<^verbatim>\<open>incrementActiveSection\<close>, \<^verbatim>\<open>removeActiveSection\<close> and the
  others), a collection that is not empty has exactly one section whose controls have
  \<open>selected\<close> set.
\<close>

theorem exactly_one_selected:
  assumes "run grab parse_float cs Sections_init = Inr s" and "sections s \<noteq> []"
  shows "length (filter (\<lambda>r. selected (controls (heap s ! r))) (sections s)) = 1"
proof -
  from reachable_consistent[OF assms(1)] have w: "consistent s" .
  with assms(2) obtain a where a: "active_section s = Some a"
    by (auto simp: consistent_def)
  from w a have d: "distinct (sections s)" and m: "a \<in> set (sections s)"
    and sel: "\<forall>r \<in> set (sections s). selected (controls (heap s ! r)) \<longleftrightarrow> r = a"
    by (simp_all add: consistent_def coherent_def)
  from sel have "filter (\<lambda>r. selected (controls (heap s ! r))) (sections s)
      = filter ((=) a) (sections s)"
    by (intro filter_cong) auto
  also have "\<dots> = [a]" using d m by (rule filter_eq_distinct)
  finally show ?thesis by simp
qed

theorem exactly_one_selected_witness:
  "run demo_grab demo_parse demo_calls Sections_init
     = Inr (projr (run demo_grab demo_parse demo_calls Sections_init)) \<and>
   sections (projr (run demo_grab demo_parse demo_calls Sections_init)) \<noteq> [] \<and>
   length (filter (\<lambda>r. selected (controls
        (heap (projr (run demo_grab demo_parse demo_calls Sections_init)) ! r)))
      (sections (projr (run demo_grab demo_parse demo_calls Sections_init)))) = 1"
proof -
  let ?r = "run demo_grab demo_parse demo_calls Sections_init"
  have "\<not> isl ?r" and ne: "sections (projr ?r) \<noteq> []"
    by code_simp+
  then have r: "?r = Inr (projr ?r)" by (intro Inr_projr)
  from exactly_one_selected[OF r ne] r ne show ?thesis by simp
qed

section \<open>The line of a section in a mosaic file\<close>

text \<open>
  Claim C4, as stated, fails: the claim has the tag followed by exactly three fields, x, y
  and the angle, and \<^verbatim>\<open>Section.saveToMosaicFile\<close> writes the section number before them.
  The section with number 0 at (1.0, 2.0) and angle 3.0 is written as
  \<^verbatim>\<open>section,0,1.0,2.0,3.0\<close> and not as \<^verbatim>\<open>section,1.0,2.0,3.0\<close>.
\<close>

theorem saved_line_starts_with_the_number:
  "Section_saveToMosaicFile demo_str (Section_init 0 1 2 3) [] = ''section,0,1.0,2.0,3.0'' @ CRLF \<and>
   ''section,'' @ demo_str 1 @ '','' @ demo_str 2 @ '','' @ demo_str 3 @ CRLF
      = ''section,1.0,2.0,3.0'' @ CRLF \<and>
   Section_saveToMosaicFile demo_str (Section_init 0 1 2 3) []
      \<noteq> ''section,'' @ demo_str 1 @ '','' @ demo_str 2 @ '','' @ demo_str 3 @ CRLF"
  by code_simp

text \<open>
  Claim C4, amended. For every section, \<^verbatim>\<open>Section.saveToMosaicFile\<close> appends to the file
  exactly the line \<^verbatim>\<open>section,<number>,<x_um>,<y_um>,<angle>\<close> terminated by CRLF; when the
  text of a float holds no comma, the line splits at its commas into the tag
  \<^verbatim>\<open>section\<close> and exactly four fields: the section number, x and y in micrometers and the
  angle in degrees (the last one with the CRLF after it).
\<close>

theorem saved_line_fields:
  assumes "\<forall>v. CHR '','' \<notin> set (str_float v)"
  shows "Section_saveToMosaicFile str_float sec filep =
           filep @ ''section,'' @ str_int (getSectionNumber sec) @ '','' @
             str_float (x_um (getLocation sec)) @ '','' @ str_float (y_um (getLocation sec)) @ '','' @
             str_float (getAngle sec) @ CRLF \<and>
         py_split CHR '','' (mosaic_line str_float sec) =
           [''section'', str_int (getSectionNumber sec), str_float (x_um (getLocation sec)),
            str_float (y_um (getLocation sec)), str_float (getAngle sec) @ CRLF]"
  using py_split_mosaic_line[OF assms, of sec]
  by (simp add: Section_saveToMosaicFile_def mosaic_line_eq)

theorem saved_line_fields_witness:
  "Section_saveToMosaicFile demo_str (Section_init 7 1 2 3) ''mosaic'' =
      ''mosaicsection,7,1.0,2.0,3.0'' @ CRLF \<and>
   py_split CHR '','' (mosaic_line demo_str (Section_init 7 1 2 3)) =
      [''section'', ''7'', ''1.0'', ''2.0'', ''3.0'' @ CRLF]"
proof -
  have h: "\<forall>v. CHR '','' \<notin> set (demo_str v)" by (simp add: demo_str_no_comma)
  have v: "str_int (getSectionNumber (Section_init 7 1 2 3)) = ''7''"
    "demo_str (x_um (getLocation (Section_init 7 1 2 3))) = ''1.0''"
    "demo_str (y_um (getLocation (Section_init 7 1 2 3))) = ''2.0''"
    "demo_str (getAngle (Section_init 7 1 2 3)) = ''3.0''"
    by code_simp+
  from saved_line_fields[OF h, of "Section_init 7 1 2 3" "''mosaic''"] show ?thesis
    unfolding v by simp
qed

text \<open>
  Claim C5. Take a section whose values lie in the ranges of its spin boxes (as they do
  for every section of a reached state, by \<open>reachable_in_ranges\<close>), a printer of
  floats whose text holds no comma, and a reader that gives each of the three printed
  values back within a tolerance \<open>eps\<close>. The line that \<^verbatim>\<open>Section.saveToMosaicFile\<close>
  writes, split at its commas and handed to \<^verbatim>\<open>Sections.loadFromMosaicFileData\<close>, is
  recognized (the result is \<^verbatim>\<open>True\<close>), and the call adds one section whose x, y and angle
  are those of the written section within \<open>eps\<close>.
\<close>

theorem save_then_load_roundtrip:
  assumes "\<forall>v. CHR '','' \<notin> set (str_float v)"
    and "py_float parse_float (str_float (x_um (getLocation sec))) = Inr x'"
    and "py_float parse_float (str_float (y_um (getLocation sec))) = Inr y'"
    and "py_float parse_float (str_float (getAngle sec)) = Inr a'"
    and "\<bar>x' - x_um (getLocation sec)\<bar> \<le> eps"
    and "\<bar>y' - y_um (getLocation sec)\<bar> \<le> eps"
    and "\<bar>a' - getAngle sec\<bar> \<le> eps"
    and "\<bar>x_um (getLocation sec)\<bar> \<le> 1000000"
    and "\<bar>y_um (getLocation sec)\<bar> \<le> 1000000"
    and "\<bar>getAngle sec\<bar> \<le> 180"
  shows "\<exists>s'. loadFromMosaicFileData parse_float
                 (py_split CHR '','' (Section_saveToMosaicFile str_float sec [])) directory s
               = Inr (True, s') \<and>
              sections s' = sections s @ [length (heap s)] \<and>
              \<bar>x_um (getLocation (heap s' ! length (heap s))) - x_um (getLocation sec)\<bar> \<le> eps \<and>
              \<bar>y_um (getLocation (heap s' ! length (heap s))) - y_um (getLocation sec)\<bar> \<le> eps \<and>
              \<bar>getAngle (heap s' ! length (heap s)) - getAngle sec\<bar> \<le> eps"
proof -
  have fields: "py_split CHR '','' (Section_saveToMosaicFile str_float sec []) =
      [''section'', str_int (getSectionNumber sec), str_float (x_um (getLocation sec)),
       str_float (y_um (getLocation sec)), str_float (getAngle sec) @ CRLF]"
    using py_split_mosaic_line[OF assms(1), of sec] by (simp add: Section_saveToMosaicFile_def)
  have pa: "py_float parse_float (str_float (getAngle sec) @ CRLF) = Inr a'"
    using assms(4) by (simp add: py_float_CRLF)
  obtain s' where add: "addSection (Point_um x' y') a' s = Inr s'"
    using addSection_returns by blast
  have load: "loadFromMosaicFileData parse_float
      (py_split CHR '','' (Section_saveToMosaicFile str_float sec [])) directory s = Inr (True, s')"
    unfolding fields using loadFromMosaicFileData_fields[OF assms(2,3) pa] add by simp
  note new = addSection_new[OF add]
  have x: "\<bar>qBound (- 1000000) x' 1000000 - x_um (getLocation sec)\<bar> \<le> eps"
    using qBound_close[of "- 1000000" "x_um (getLocation sec)" 1000000 x'] assms(5,8) by linarith
  have y: "\<bar>qBound (- 1000000) y' 1000000 - y_um (getLocation sec)\<bar> \<le> eps"
    using qBound_close[of "- 1000000" "y_um (getLocation sec)" 1000000 y'] assms(6,9) by linarith
  have a: "\<bar>qBound (- 180) a' 180 - getAngle sec\<bar> \<le> eps"
    using qBound_close[of "- 180" "getAngle sec" 180 a'] assms(7,10) by linarith
  show ?thesis
  proof (intro exI[of _ s'] conjI)
    show "loadFromMosaicFileData parse_float
      (py_split CHR '','' (Section_saveToMosaicFile str_float sec [])) directory s = Inr (True, s')"
      by (rule load)
    show "sections s' = sections s @ [length (heap s)]" using new by blast
    show "\<bar>x_um (getLocation (heap s' ! length (heap s))) - x_um (getLocation sec)\<bar> \<le> eps"
      using new x by (simp add: Section_init_values Point_um_def)
    show "\<bar>y_um (getLocation (heap s' ! length (heap s))) - y_um (getLocation sec)\<bar> \<le> eps"
      using new y by (simp add: Section_init_values Point_um_def)
    show "\<bar>getAngle (heap s' ! length (heap s)) - getAngle sec\<bar> \<le> eps"
      using new a by (simp add: Section_init_values)
  qed
qed

theorem save_then_load_roundtrip_witness:
  "\<exists>s'. loadFromMosaicFileData demo_parse
           (py_split CHR '','' (Section_saveToMosaicFile demo_str (Section_init 7 1 2 3) []))
           ''mosaics'' Sections_init = Inr (True, s') \<and>
        sections s' = [0] \<and>
        x_um (getLocation (heap s' ! 0)) = 1 \<and>
        y_um (getLocation (heap s' ! 0)) = 2 \<and>
        getAngle (heap s' ! 0) = 3"
proof -
  let ?sec = "Section_init 7 1 2 3"
  have c: "\<forall>v. CHR '','' \<notin> set (demo_str v)" by (simp add: demo_str_no_comma)
  have v: "x_um (getLocation ?sec) = 1" "y_um (getLocation ?sec) = 2" "getAngle ?sec = 3"
    by (simp_all add: Section_init_values qBound_def)
  have p: "py_float demo_parse (demo_str (x_um (getLocation ?sec))) = Inr 1"
    "py_float demo_parse (demo_str (y_um (getLocation ?sec))) = Inr 2"
    "py_float demo_parse (demo_str (getAngle ?sec)) = Inr 3"
    by code_simp+
  have e: "\<bar>1 - x_um (getLocation ?sec)\<bar> \<le> 0" "\<bar>2 - y_um (getLocation ?sec)\<bar> \<le> 0"
    "\<bar>3 - getAngle ?sec\<bar> \<le> 0"
    "\<bar>x_um (getLocation ?sec)\<bar> \<le> 1000000" "\<bar>y_um (getLocation ?sec)\<bar> \<le> 1000000"
    "\<bar>getAngle ?sec\<bar> \<le> 180"
    by (simp_all add: v)
  have i: "sections Sections_init = []" "length (heap Sections_init) = 0"
    by (simp_all add: Sections_init_def)
  from save_then_load_roundtrip[where directory = "''mosaics''" and s = Sections_init, OF c p e]
  show ?thesis unfolding i v by simp
qed

section \<open>Keys without a section\<close>

text \<open>
  Claim C6 has every key be a no-op that raises nothing while the collection is empty.
  In the initial state the keys Up, Down, Delete, P and U are such no-ops, and each of
  the keys W, S, A, D, Q and E raises \<^verbatim>\<open>AttributeError\<close>: the handler calls a method on
  \<^verbatim>\<open>self.active_section\<close>, which is \<^verbatim>\<open>False\<close>.
\<close>

theorem nudge_keys_raise_without_active_section:
  "handleKeyEvent grab Key_W Sections_init = Inl AttributeError \<and>
   handleKeyEvent grab Key_S Sections_init = Inl AttributeError \<and>
   handleKeyEvent grab Key_A Sections_init = Inl AttributeError \<and>
   handleKeyEvent grab Key_D Sections_init = Inl AttributeError \<and>
   handleKeyEvent grab Key_Q Sections_init = Inl AttributeError \<and>
   handleKeyEvent grab Key_E Sections_init = Inl AttributeError \<and>
   handleKeyEvent grab Key_Up Sections_init = Inr Sections_init \<and>
   handleKeyEvent grab Key_Down Sections_init = Inr Sections_init \<and>
   handleKeyEvent grab Key_Delete Sections_init = Inr Sections_init \<and>
   handleKeyEvent grab Key_P Sections_init = Inr Sections_init \<and>
   handleKeyEvent grab Key_U Sections_init = Inr Sections_init"
  by (simp add: handleKeyEvent_def Key_Up_def Key_Down_def Key_W_def Key_S_def Key_A_def
      Key_D_def Key_Q_def Key_E_def Key_P_def Key_Delete_def Key_U_def
      on_active_section_def incrementActiveSection_def saveSectionsNumpy_def viewUpdate_def
      updateBackgroundPixmap_def updateForegroundPixmap_def Sections_init_def)

section \<open>Removing the active section\<close>

text \<open>
  Claim C7. In a state reached by calls that return and with an active section,
  \<^verbatim>\<open>removeActiveSection\<close> returns; it removes the active section, whose number \<open>k\<close> is its
  position in the collection, and leaves the remaining sections numbered 0, 1, ...,
  count - 1. The new active section is the one at position \<open>k - 1\<close> when \<open>k > 0\<close>, else the
  one at position 0 when a section remains, and its number is that position; when no
  section remains, none is active. On three sections with the one in the middle active
  this leaves two sections numbered 0 and 1 and the first of them active.
\<close>

theorem removeActiveSection_reactivates:
  assumes "run grab parse_float cs Sections_init = Inr s" and "active_section s = Some a"
  shows "\<exists>s'. removeActiveSection s = Inr s' \<and>
     (let k = nat (getSectionNumber (heap s ! a)) in
        k < length (sections s) \<and> sections s ! k = a \<and>
        sections s' = del_at k (sections s) \<and> a \<notin> set (sections s') \<and>
        map (\<lambda>r. section_number (heap s' ! r)) (sections s') = map int [0..<length (sections s')] \<and>
        (case active_section s' of
           None \<Rightarrow> k = 0 \<and> sections s' = []
         | Some b \<Rightarrow> sections s' \<noteq> [] \<and>
             b = sections s' ! (if 0 < k then k - 1 else 0) \<and>
             getSectionNumber (heap s' ! b) = (if 0 < k then int k - 1 else 0) \<and>
             selected (controls (heap s' ! b))))"
proof -
  from reachable_consistent[OF assms(1)] have w: "consistent s" .
  then have c: "coherent s" and d: "distinct (sections s)"
    by (simp_all add: consistent_def coherent_def)
  from removeActiveSection_consistent[OF c assms(2)] obtain s' k where
    r: "removeActiveSection s = Inr s'" and w': "consistent s'"
    and k: "k < length (sections s)" "sections s ! k = a" "getSectionNumber (heap s ! a) = int k"
    and sec: "sections s' = take k (sections s) @ drop (Suc k) (sections s)"
    and act: "active_section s' =
        (if sections s' = [] then None else Some (sections s' ! (if 0 < k then k - 1 else 0)))"
    by blast
  let ?j = "if 0 < k then k - 1 else 0"
  have nk: "nat (getSectionNumber (heap s ! a)) = k" using k(3) by simp
  have notin: "a \<notin> set (sections s')"
    using set_take_drop_distinct[OF d k(1)] k(2) sec by simp
  have len: "length (sections s') = length (sections s) - 1" using sec k(1) by simp
  have dense: "map (\<lambda>r. section_number (heap s' ! r)) (sections s') = map int [0..<length (sections s')]"
    by (rule nth_equalityI) (simp_all add: consistent_numbers[OF w'])
  have active: "case active_section s' of
           None \<Rightarrow> k = 0 \<and> sections s' = []
         | Some b \<Rightarrow> sections s' \<noteq> [] \<and> b = sections s' ! ?j \<and>
             getSectionNumber (heap s' ! b) = (if 0 < k then int k - 1 else 0) \<and>
             selected (controls (heap s' ! b))"
  proof (cases "sections s' = []")
    case True
    with len k(1) have "k = 0" by simp
    with True act show ?thesis by simp
  next
    case False
    then have "0 < length (sections s')" by simp
    with len k(1) have j: "?j < length (sections s')" by (cases "0 < k") simp_all
    from False act have b: "active_section s' = Some (sections s' ! ?j)" by simp
    have num: "getSectionNumber (heap s' ! (sections s' ! ?j)) = int ?j"
      using consistent_numbers[OF w' j] by (simp add: getSectionNumber_def)
    have "selected (controls (heap s' ! (sections s' ! ?j)))"
      using w' b j unfolding consistent_def coherent_def by (auto simp: nth_mem)
    with b False num show ?thesis by (auto simp: int_ops)
  qed
  have secd: "sections s' = del_at k (sections s)" by (simp add: sec del_at_def)
  show ?thesis
    unfolding Let_def nk using r k(1,2) secd notin dense active by blast
qed


theorem removeActiveSection_reactivates_witness:
  "run demo_grab demo_parse demo_calls Sections_init
     = Inr (projr (run demo_grab demo_parse demo_calls Sections_init)) \<and>
   active_section (projr (run demo_grab demo_parse demo_calls Sections_init)) = Some 1 \<and>
   length (sections (projr (run demo_grab demo_parse demo_calls Sections_init))) = 3 \<and>
   (\<exists>s'. removeActiveSection (projr (run demo_grab demo_parse demo_calls Sections_init)) = Inr s' \<and>
      map (\<lambda>r. section_number (heap s' ! r)) (sections s') = [0, 1] \<and>
      (\<exists>b. active_section s' = Some b \<and> b = sections s' ! 0 \<and> getSectionNumber (heap s' ! b) = 0))"
proof -
  let ?r = "run demo_grab demo_parse demo_calls Sections_init"
  let ?s = "projr ?r"
  have "\<not> isl ?r" and a: "active_section ?s = Some 1"
    and n: "getSectionNumber (heap ?s ! 1) = 1" and l: "length (sections ?s) = 3"
    by code_simp+
  then have r: "?r = Inr ?s" by (intro Inr_projr)
  from removeActiveSection_reactivates[OF r a] obtain s' where
    rem: "removeActiveSection ?s = Inr s'"
    and sec: "sections s' = del_at 1 (sections ?s)"
    and dense: "map (\<lambda>r. section_number (heap s' ! r)) (sections s') = map int [0..<length (sections s')]"
    and act: "case active_section s' of
           None \<Rightarrow> sections s' = []
         | Some b \<Rightarrow> sections s' \<noteq> [] \<and> b = sections s' ! 0 \<and>
             getSectionNumber (heap s' ! b) = 0"
    unfolding Let_def n by (auto split: option.splits)
  from sec l have len: "length (sections s') = 2" by (simp add: del_at_def)
  with dense have d2: "map (\<lambda>r. section_number (heap s' ! r)) (sections s') = [0, 1]"
    by (simp add: upt_rec)
  from len act have b: "\<exists>b. active_section s' = Some b \<and> b = sections s' ! 0 \<and>
      getSectionNumber (heap s' ! b) = 0"
    by (cases "active_section s'") auto
  have ex: "\<exists>s'. removeActiveSection ?s = Inr s' \<and>
      map (\<lambda>r. section_number (heap s' ! r)) (sections s') = [0, 1] \<and>
      (\<exists>b. active_section s' = Some b \<and> b = sections s' ! 0 \<and> getSectionNumber (heap s' ! b) = 0)"
  proof (intro exI[of _ s'] conjI)
    show "removeActiveSection ?s = Inr s'" by (rule rem)
    show "map (\<lambda>r. section_number (heap s' ! r)) (sections s') = [0, 1]" by (rule d2)
    show "\<exists>b. active_section s' = Some b \<and> b = sections s' ! 0 \<and>
      getSectionNumber (heap s' ! b) = 0" by (rule b)
  qed
  show ?thesis
  proof (intro conjI)
    show "?r = Inr ?s" by (rule r)
    show "active_section ?s = Some 1" by (rule a)
    show "length (sections ?s) = 3" by (rule l)
    show "\<exists>s'. removeActiveSection ?s = Inr s' \<and>
      map (\<lambda>r. section_number (heap s' ! r)) (sections s') = [0, 1] \<and>
      (\<exists>b. active_section s' = Some b \<and> b = sections s' ! 0 \<and> getSectionNumber (heap s' ! b) = 0)"
      by (rule ex)
  qed
qed

section \<open>Turning a section\<close>

text \<open>
  Claim C8, as stated, fails: the claim has the angle stay within the half-open range
  (-180, 180], and a decrement from -179 degrees ends at -180 degrees, which the spin box
  of the angle admits.
\<close>

theorem incrementAngle_reaches_minus_180:
  "\<not> (- 180 < currentAngle (SectionControls_incrementAngle (- 1) (SectionControls 0 0 (- 179))) \<and>
      currentAngle (SectionControls_incrementAngle (- 1) (SectionControls 0 0 (- 179))) \<le> 180)"
  by (simp add: SectionControls_incrementAngle_def SectionControls_def SectionSpinBox_def
      setValue_def qBound_def currentAngle_def)

text \<open>
  Claim C8, amended. \<^verbatim>\<open>SectionControls.incrementAngle\<close> wraps rather than clamps: from
  every angle of the range [-180, 180] of the spin box, with the step of one degree (the
  range and the step of every section of a reached state, by \<open>reachable_in_ranges\<close>), the
  result stays within the closed range [-180, 180]; a step up that passes 180 goes on
  from -180 (the angle plus 1 minus 360), a step down that passes -180 goes on from 180
  (the angle minus 1 plus 360), and every other step adds or subtracts one degree. So an
  increment from 179 gives 180 and a decrement from -180 gives 179.
\<close>

theorem incrementAngle_wraps:
  assumes "angle_step c = 1"
    and "minimum (angle_spin_box c) = - 180" and "maximum (angle_spin_box c) = 180"
    and "- 180 \<le> currentAngle c" and "currentAngle c \<le> 180"
  shows "- 180 \<le> currentAngle (SectionControls_incrementAngle direction c) \<and>
         currentAngle (SectionControls_incrementAngle direction c) \<le> 180 \<and>
         currentAngle (SectionControls_incrementAngle direction c) =
           (if 0 < direction then
              (if 180 < currentAngle c + 1 then currentAngle c + 1 - 360 else currentAngle c + 1)
            else
              (if currentAngle c - 1 < - 180 then currentAngle c - 1 + 360 else currentAngle c - 1))"
  using assms
  by (simp add: SectionControls_incrementAngle_def setValue_def qBound_def currentAngle_def Let_def)

theorem incrementAngle_wraps_witness:
  "angle_step (SectionControls 0 0 (- 180)) = 1 \<and>
   minimum (angle_spin_box (SectionControls 0 0 (- 180))) = - 180 \<and>
   maximum (angle_spin_box (SectionControls 0 0 (- 180))) = 180 \<and>
   currentAngle (SectionControls 0 0 (- 180)) = - 180 \<and>
   currentAngle (SectionControls_incrementAngle (- 1) (SectionControls 0 0 (- 180))) = 179 \<and>
   currentAngle (SectionControls_incrementAngle 1 (SectionControls 0 0 179)) = 180"
proof -
  have c: "angle_step (SectionControls x y a) = 1"
    "minimum (angle_spin_box (SectionControls x y a)) = - 180"
    "maximum (angle_spin_box (SectionControls x y a)) = 180" for x y a
    by (simp_all add: SectionControls_def SectionSpinBox_def setValue_def)
  have v: "currentAngle (SectionControls 0 0 (- 180)) = - 180"
    "currentAngle (SectionControls 0 0 179) = 179"
    by (simp_all add: SectionControls_def SectionSpinBox_def setValue_def qBound_def currentAngle_def)
  from incrementAngle_wraps[OF c, of 0 0 "- 180" "- 1"] v
  have "currentAngle (SectionControls_incrementAngle (- 1) (SectionControls 0 0 (- 180))) = 179"
    by simp
  moreover from incrementAngle_wraps[OF c, of 0 0 179 1] v
  have "currentAngle (SectionControls_incrementAngle 1 (SectionControls 0 0 179)) = 180"
    by simp
  ultimately show ?thesis using c v by simp
qed

section \<open>The background without a checked section\<close>

text \<open>
  Claim C9, as stated, fails on the empty collection: \<^verbatim>\<open>updateBackgroundPixmap\<close> returns at
  once there and leaves the background pixmap as it is. After a section is added, checked
  and deleted with the Delete key, the collection is empty and the view keeps the pixmap
  of the deleted section through another \<^verbatim>\<open>updateBackgroundPixmap\<close>.
\<close>

theorem stale_background_on_empty_collection:
  "\<not> isl (run demo_grab demo_parse demo_deleted Sections_init) \<and>
   sections (projr (run demo_grab demo_parse demo_deleted Sections_init)) = [] \<and>
   background_pixmap (view (updateBackgroundPixmap demo_grab
       (projr (run demo_grab demo_parse demo_deleted Sections_init))))
     = QPixmap (Some [30, 60, 90, 255])"
  by code_simp

text \<open>
  Claim C9, amended. When the collection is not empty and none of its sections is
  checked, \<^verbatim>\<open>updateBackgroundPixmap\<close> sets the background pixmap of the view to
  \<^verbatim>\<open>False\<close>, which the view does not paint; when the collection is empty it returns at
  once and changes nothing.
\<close>

theorem no_checked_section_clears_background:
  "(sections s \<noteq> [] \<and> (\<forall>r \<in> set (sections s). \<not> isChecked (heap s ! r)) \<longrightarrow>
      background_pixmap (view (updateBackgroundPixmap grab s)) = PyFalse) \<and>
   (sections s = [] \<longrightarrow> updateBackgroundPixmap grab s = s)"
  by (simp add: updateBackgroundPixmap_def fold_background_step_unchecked setBackgroundPixmap_def)

theorem no_checked_section_clears_background_witness:
  "\<not> isl (run demo_grab demo_parse [AddSection (Point_um 0 0) 0] Sections_init) \<and>
   sections (projr (run demo_grab demo_parse [AddSection (Point_um 0 0) 0] Sections_init)) \<noteq> [] \<and>
   list_all (\<lambda>r. \<not> isChecked (heap (projr (run demo_grab demo_parse [AddSection (Point_um 0 0) 0] Sections_init)) ! r))
     (sections (projr (run demo_grab demo_parse [AddSection (Point_um 0 0) 0] Sections_init))) \<and>
   background_pixmap (view (updateBackgroundPixmap demo_grab
      (projr (run demo_grab demo_parse [AddSection (Point_um 0 0) 0] Sections_init)))) = PyFalse \<and>
   sections Sections_init = [] \<and>
   updateBackgroundPixmap demo_grab Sections_init = Sections_init"
proof -
  let ?s = "projr (run demo_grab demo_parse [AddSection (Point_um 0 0) 0] Sections_init)"
  have h: "\<not> isl (run demo_grab demo_parse [AddSection (Point_um 0 0) 0] Sections_init)"
    "sections ?s \<noteq> []" "list_all (\<lambda>r. \<not> isChecked (heap ?s ! r)) (sections ?s)"
    by code_simp+
  then have u: "\<forall>r \<in> set (sections ?s). \<not> isChecked (heap ?s ! r)"
    by (simp add: list_all_iff)
  have e: "sections Sections_init = []" by (simp add: Sections_init_def)
  from no_checked_section_clears_background[of ?s demo_grab] h(2) u
  have 1: "background_pixmap (view (updateBackgroundPixmap demo_grab ?s)) = PyFalse" by blast
  from no_checked_section_clears_background[of Sections_init demo_grab] e
  have 2: "updateBackgroundPixmap demo_grab Sections_init = Sections_init" by blast
  show ?thesis
  proof (intro conjI)
    show "\<not> isl (run demo_grab demo_parse [AddSection (Point_um 0 0) 0] Sections_init)" by (rule h(1))
    show "sections ?s \<noteq> []" by (rule h(2))
    show "list_all (\<lambda>r. \<not> isChecked (heap ?s ! r)) (sections ?s)" by (rule h(3))
    show "background_pixmap (view (updateBackgroundPixmap demo_grab ?s)) = PyFalse" by (rule 1)
    show "sections Sections_init = []" by (rule e)
    show "updateBackgroundPixmap demo_grab Sections_init = Sections_init" by (rule 2)
  qed
qed

section \<open>The number field of a mosaic line\<close>

text \<open>
  Claim C10. \<^verbatim>\<open>Sections.loadFromMosaicFileData\<close> does not read the second field of its
  list: two lists that differ in that field only give the same result, state or error;
  and the section that a recognized line adds has as its number the count of the
  collection at the call, whatever number the line holds.
\<close>

theorem load_ignores_the_number_field:
  "loadFromMosaicFileData parse_float (data[1 := a]) directory s
     = loadFromMosaicFileData parse_float (data[1 := b]) directory s \<and>
   (loadFromMosaicFileData parse_float data directory s = Inr (True, s') \<longrightarrow>
      sections s' = sections s @ [length (heap s)] \<and>
      getSectionNumber (heap s' ! length (heap s)) = int (length (sections s)))"
proof
  show "loadFromMosaicFileData parse_float (data[1 := a]) directory s
     = loadFromMosaicFileData parse_float (data[1 := b]) directory s"
    by (simp add: loadFromMosaicFileData_def py_index_update_other cong: sum.case_cong if_cong)
  show "loadFromMosaicFileData parse_float data directory s = Inr (True, s') \<longrightarrow>
      sections s' = sections s @ [length (heap s)] \<and>
      getSectionNumber (heap s' ! length (heap s)) = int (length (sections s))"
    by (auto simp: loadFromMosaicFileData_def getSectionNumber_def
        split: sum.splits if_splits dest: addSection_new)
qed

theorem load_ignores_the_number_field_witness:
  "loadFromMosaicFileData demo_parse [''section'', ''7'', ''1.0'', ''2.0'', ''3.0''] ''mosaics'' Sections_init
     = Inr (True, snd (projr (loadFromMosaicFileData demo_parse
         [''section'', ''7'', ''1.0'', ''2.0'', ''3.0''] ''mosaics'' Sections_init))) \<and>
   sections (snd (projr (loadFromMosaicFileData demo_parse
         [''section'', ''7'', ''1.0'', ''2.0'', ''3.0''] ''mosaics'' Sections_init))) = [0] \<and>
   getSectionNumber (heap (snd (projr (loadFromMosaicFileData demo_parse
         [''section'', ''7'', ''1.0'', ''2.0'', ''3.0''] ''mosaics'' Sections_init))) ! 0) = 0"
proof -
  let ?l = "loadFromMosaicFileData demo_parse
      [''section'', ''7'', ''1.0'', ''2.0'', ''3.0''] ''mosaics'' Sections_init"
  have "\<not> isl ?l" and "fst (projr ?l)"
    by code_simp+
  then have l: "?l = Inr (True, snd (projr ?l))"
    by (cases ?l) auto
  have i: "sections Sections_init = []" "length (heap Sections_init) = 0"
    by (simp_all add: Sections_init_def)
  from load_ignores_the_number_field[where parse_float = demo_parse
      and data = "[''section'', ''7'', ''1.0'', ''2.0'', ''3.0'']" and a = "''7''" and b = "''8''"
      and directory = "''mosaics''" and s = Sections_init and s' = "snd (projr ?l)"] l
  have "sections (snd (projr ?l)) = sections Sections_init @ [length (heap Sections_init)] \<and>
      getSectionNumber (heap (snd (projr ?l)) ! length (heap Sections_init))
        = int (length (sections Sections_init))"
    by blast
  then have "sections (snd (projr ?l)) = [0] \<and> getSectionNumber (heap (snd (projr ?l)) ! 0) = 0"
    unfolding i by simp
  with l show ?thesis by blast
qed

end
